theory Spec2Isabelle
  imports Complex_Main
begin

section \<open>Strings, numbers and paths as the controller uses them\<close>

text \<open>
  Strings are lists of characters. \<open>toString\<close> is the decimal printing that a
  template literal and \<open>Number.prototype.toString\<close> give a non-negative integer,
  \<open>toString_int\<close> the same for any integer.
\<close>

definition digit_char :: "nat \<Rightarrow> char" where
  "digit_char d = ''0123456789'' ! d"

function toString :: "nat \<Rightarrow> string" where
  "toString n = (if n < 10 then [digit_char n] else toString (n div 10) @ [digit_char (n mod 10)])"
  by pat_completeness auto
termination
  by (relation "measure id") auto

definition toString_int :: "int \<Rightarrow> string" where
  "toString_int i = (if i < 0 then ''-'' @ toString (nat (- i)) else toString (nat i))"

text \<open>Decimal digits read as a number: nothing unless the text is one or more digits.\<close>

definition is_digit :: "char \<Rightarrow> bool" where
  "is_digit c = (c \<in> set ''0123456789'')"

definition digit_value :: "char \<Rightarrow> nat" where
  "digit_value c = of_char c - 48"

definition digits_value :: "string \<Rightarrow> nat" where
  "digits_value ds = foldl (\<lambda>n c. 10 * n + digit_value c) 0 ds"

definition parse_nat :: "string \<Rightarrow> nat option" where
  "parse_nat ds = (if ds \<noteq> [] \<and> list_all is_digit ds then Some (digits_value ds) else None)"

text \<open>\<open>s.padStart(n, c)\<close> for a one-character pad string.\<close>

definition padStart :: "nat \<Rightarrow> char \<Rightarrow> string \<Rightarrow> string" where
  "padStart n c s = replicate (n - length s) c @ s"

text \<open>\<open>s.startsWith(p)\<close> and \<open>s.includes(p)\<close>.\<close>

definition startsWith :: "'a list \<Rightarrow> 'a list \<Rightarrow> bool" where
  "startsWith s p = (take (length p) s = p)"

fun includes_str :: "string \<Rightarrow> string \<Rightarrow> bool" where
  "includes_str [] p = startsWith [] p"
| "includes_str (c # s) p = (startsWith (c # s) p \<or> includes_str s p)"

text \<open>\<open>content.split('\n')\<close> and \<open>lines.join('\n')\<close>.\<close>

fun split_nl :: "string \<Rightarrow> string list" where
  "split_nl [] = [[]]"
| "split_nl (c # s) =
     (if c = CHR 0x0A then [] # split_nl s
      else (case split_nl s of [] \<Rightarrow> [[c]] | l # ls \<Rightarrow> (c # l) # ls))"

fun join_nl :: "string list \<Rightarrow> string" where
  "join_nl [] = []"
| "join_nl [l] = l"
| "join_nl (l # m # ls) = l @ CHR 0x0A # join_nl (m # ls)"

text \<open>
  \<open>path.join(a, b)\<close> for an already normalised directory \<open>a\<close> and a plain file
  name \<open>b\<close>: the two joined by one separator.
\<close>

definition path_join :: "string \<Rightarrow> string \<Rightarrow> string" where
  "path_join a b = a @ ''/'' @ b"

section \<open>The file system\<close>

text \<open>
  A path names a directory or a file with its content. \<open>existsSync\<close> is true of both;
  \<open>readFile\<close> rejects on anything but a file. The name space is flat: the
  directories above a path are not tracked, \<open>mkdirSync\<close> with \<open>recursive\<close>
  records the directory itself, and writing a file always succeeds.
\<close>

datatype node = Dir | File string

type_synonym fs = "string \<rightharpoonup> node"

datatype error =
    HTTPException nat string
  | ProbeFailure string
  | FsError string

definition existsSync :: "fs \<Rightarrow> string \<Rightarrow> bool" where
  "existsSync s p = (s p \<noteq> None)"

definition mkdirSync :: "fs \<Rightarrow> string \<Rightarrow> fs" where
  "mkdirSync s p = s(p \<mapsto> Dir)"

definition writeFile :: "fs \<Rightarrow> string \<Rightarrow> string \<Rightarrow> fs" where
  "writeFile s p c = s(p \<mapsto> File c)"

definition readFile :: "fs \<Rightarrow> string \<Rightarrow> error + string" where
  "readFile s p = (case s p of Some (File c) \<Rightarrow> Inr c | _ \<Rightarrow> Inl (FsError p))"

section \<open>Codec information\<close>

record AudioStream =
  audio_index :: nat
  audio_name :: string
  audio_language :: string
  audio_default :: bool
  audio_codec :: string

record Subtitle =
  subtitle_index :: nat
  subtitle_title :: string
  subtitle_language :: string
  subtitle_forced :: bool
  subtitle_default :: bool

record CodecInfo =
  videoCodec :: "string option"
  pixFmt :: "string option"
  subtitles :: "Subtitle list"
  audioStreams :: "AudioStream list"
  duration :: real

section \<open>Playlist Planner\<close>

definition hlsTime :: nat where
  "hlsTime = 10"

text \<open>\<open>Math.ceil(codecInfo.duration / hlsTime)\<close>, the division taken exactly.\<close>

definition numberOfSegments :: "CodecInfo \<Rightarrow> int" where
  "numberOfSegments ci = \<lceil>duration ci / real hlsTime\<rceil>"

definition m3u8_header :: "string list" where
  "m3u8_header =
     [''#EXTM3U'', ''#EXT-X-VERSION:3'', ''#EXT-X-TARGETDURATION:'' @ toString hlsTime,
      ''#EXT-X-MEDIA-SEQUENCE:0'']"

definition extinf :: string where
  "extinf = ''#EXTINF:'' @ toString hlsTime @ '',''"

definition video_segment_name :: "nat \<Rightarrow> string" where
  "video_segment_name i = ''segment_'' @ padStart 3 CHR ''0'' (toString i) @ ''.ts''"

definition audio_segment_name :: "nat \<Rightarrow> nat \<Rightarrow> string" where
  "audio_segment_name idx i =
     ''audio_'' @ toString idx @ ''_'' @ padStart 3 CHR ''0'' (toString i) @ ''.ts''"

text \<open>
  The loop \<open>for (let i = 0; i < numberOfSegments; i++)\<close> with its two pushes, started
  at \<open>i\<close> with the lines pushed so far.
\<close>

function push_segments :: "(nat \<Rightarrow> string) \<Rightarrow> int \<Rightarrow> nat \<Rightarrow> string list \<Rightarrow> string list" where
  "push_segments nm n i m3u8Content =
     (if int i < n then push_segments nm n (Suc i) (m3u8Content @ [extinf, nm i])
      else m3u8Content)"
  by pat_completeness auto
termination
  by (relation "measure (\<lambda>(nm, n, i, acc). nat (n - int i))") auto

definition video_m3u8 :: "CodecInfo \<Rightarrow> string list" where
  "video_m3u8 ci =
     push_segments video_segment_name (numberOfSegments ci) 0 m3u8_header @ [''#EXT-X-ENDLIST'']"

definition audio_m3u8 :: "CodecInfo \<Rightarrow> AudioStream \<Rightarrow> string list" where
  "audio_m3u8 ci a =
     push_segments (audio_segment_name (audio_index a)) (numberOfSegments ci) 0 m3u8_header
       @ [''#EXT-X-ENDLIST'']"

definition generatePreGeneratedM3U8Video :: "string \<Rightarrow> CodecInfo \<Rightarrow> fs \<Rightarrow> fs" where
  "generatePreGeneratedM3U8Video outputDir ci s =
     writeFile s (path_join outputDir ''video.m3u8'') (join_nl (video_m3u8 ci))"

definition audio_playlist_name :: "AudioStream \<Rightarrow> string" where
  "audio_playlist_name a = ''audio_'' @ toString (audio_index a) @ ''.m3u8''"

fun generatePreGeneratedM3U8Audio_loop :: "string \<Rightarrow> CodecInfo \<Rightarrow> AudioStream list \<Rightarrow> fs \<Rightarrow> fs" where
  "generatePreGeneratedM3U8Audio_loop outputDir ci [] s = s"
| "generatePreGeneratedM3U8Audio_loop outputDir ci (a # as) s =
     generatePreGeneratedM3U8Audio_loop outputDir ci as
       (writeFile s (path_join outputDir (audio_playlist_name a)) (join_nl (audio_m3u8 ci a)))"

definition generatePreGeneratedM3U8Audio :: "string \<Rightarrow> CodecInfo \<Rightarrow> fs \<Rightarrow> fs" where
  "generatePreGeneratedM3U8Audio outputDir ci s =
     generatePreGeneratedM3U8Audio_loop outputDir ci (audioStreams ci) s"


text \<open>
  The subtitle playlists print the duration with JavaScript's number formatting, which
  is taken as the parameter \<open>numberToString\<close>; \<open>Math.round\<close> is
  \<open>\<lfloor>x + 1/2\<rfloor>\<close>.
\<close>

definition subtitle_m3u8 :: "(real \<Rightarrow> string) \<Rightarrow> CodecInfo \<Rightarrow> Subtitle \<Rightarrow> string list" where
  "subtitle_m3u8 numberToString ci sub =
     [''#EXTM3U'', ''#EXT-X-VERSION:3'',
      ''#EXT-X-TARGETDURATION:'' @ toString_int \<lfloor>duration ci + 1 / 2\<rfloor>,
      ''#EXT-X-MEDIA-SEQUENCE:0'',
      ''#EXTINF:'' @ numberToString (duration ci) @ '','',
      ''subtitles_'' @ toString (subtitle_index sub) @ ''.vtt'',
      ''#EXT-X-ENDLIST'']"

fun generatePreGeneratedM3U8Subtitle_loop ::
  "(real \<Rightarrow> string) \<Rightarrow> string \<Rightarrow> CodecInfo \<Rightarrow> Subtitle list \<Rightarrow> fs \<Rightarrow> fs" where
  "generatePreGeneratedM3U8Subtitle_loop numberToString outputDir ci [] s = s"
| "generatePreGeneratedM3U8Subtitle_loop numberToString outputDir ci (sub # subs) s =
     generatePreGeneratedM3U8Subtitle_loop numberToString outputDir ci subs
       (writeFile s
          (path_join outputDir (''subtitles_'' @ toString (subtitle_index sub) @ ''.m3u8''))
          (join_nl (subtitle_m3u8 numberToString ci sub)))"

definition generatePreGeneratedM3U8Subtitle ::
  "(real \<Rightarrow> string) \<Rightarrow> string \<Rightarrow> CodecInfo \<Rightarrow> fs \<Rightarrow> fs" where
  "generatePreGeneratedM3U8Subtitle numberToString outputDir ci s =
     generatePreGeneratedM3U8Subtitle_loop numberToString outputDir ci (subtitles ci) s"

definition dq :: string where
  "dq = [CHR 0x22]"

definition yes_no :: "bool \<Rightarrow> string" where
  "yes_no b = (if b then ''YES'' else ''NO'')"

text \<open>
  In the subtitle \<open>NAME\<close> the conditional operator binds weaker than \<open>+\<close>: the
  condition is the whole concatenation, a string that is truthy unless empty.
\<close>

definition master_subtitle_line :: "Subtitle \<Rightarrow> string" where
  "master_subtitle_line sub =
     ''#EXT-X-MEDIA:TYPE=SUBTITLES,GROUP-ID='' @ dq @ dq @ '',NAME='' @ dq
       @ (if subtitle_title sub @ subtitle_language sub
               @ (if subtitle_forced sub then ''true'' else ''false'') \<noteq> []
          then '' (Forced)'' else [])
       @ dq @ '',LANGUAGE='' @ dq @ subtitle_language sub @ dq
       @ '',DEFAULT='' @ yes_no (subtitle_default sub)
       @ '',AUTOSELECT=NO,FORCED='' @ yes_no (subtitle_forced sub)
       @ '',URI='' @ dq @ ''hls/subtitles_'' @ toString (subtitle_index sub) @ ''.m3u8'' @ dq"

definition master_audio_line :: "AudioStream \<Rightarrow> string" where
  "master_audio_line a =
     ''#EXT-X-MEDIA:TYPE=AUDIO,GROUP-ID='' @ dq @ dq @ '',NAME='' @ dq @ audio_name a @ dq
       @ '',DEFAULT='' @ yes_no (audio_default a)
       @ '',AUTOSELECT=YES,LANGUAGE='' @ dq @ audio_language a @ dq
       @ '',URI='' @ dq @ ''hls/audio_'' @ toString (audio_index a) @ ''.m3u8'' @ dq"

definition master_m3u8 :: "CodecInfo \<Rightarrow> string list" where
  "master_m3u8 ci =
     [''#EXTM3U''] @ map master_subtitle_line (subtitles ci) @ map master_audio_line (audioStreams ci)
       @ [''#EXT-X-STREAM-INF:SUBTITLES='' @ dq @ dq @ '',AUDIO='' @ dq @ dq, ''hls/video.m3u8'']"

definition generatePreGeneratedM3U8Master :: "string \<Rightarrow> CodecInfo \<Rightarrow> fs \<Rightarrow> fs" where
  "generatePreGeneratedM3U8Master outputDir ci s =
     writeFile s (path_join outputDir ''master.m3u8'') (join_nl (master_m3u8 ci))"

text \<open>How a player reads a media playlist: the line after each \<open>#EXTINF\<close> tag.\<close>

fun segment_entries :: "string list \<Rightarrow> string list" where
  "segment_entries (l # u # ls) =
     (if startsWith l ''#EXTINF:'' then u # segment_entries ls else segment_entries (u # ls))"
| "segment_entries [l] = []"
| "segment_entries [] = []"

definition playlist_at :: "fs \<Rightarrow> string \<Rightarrow> string list" where
  "playlist_at s p = (case s p of Some (File c) \<Rightarrow> split_nl c | _ \<Rightarrow> [])"

text \<open>
  The placeholder playlist in the specification's words: the four header tags, then for
  each of \<open>n\<close> segments one \<open>#EXTINF\<close> line of the fixed nominal length and
  one line with the segment's file name, then the end-of-list marker.
\<close>

definition placeholder_playlist :: "(nat \<Rightarrow> string) \<Rightarrow> nat \<Rightarrow> string list" where
  "placeholder_playlist nm n =
     [''#EXTM3U'', ''#EXT-X-VERSION:3'', ''#EXT-X-TARGETDURATION:10'', ''#EXT-X-MEDIA-SEQUENCE:0'']
     @ concat (map (\<lambda>i. [''#EXTINF:10,'', nm i]) [0..<n])
     @ [''#EXT-X-ENDLIST'']"

section \<open>Transcode Orchestrator\<close>

text \<open>
  \<open>generateHLS\<close> spawns one encoder process per track. The model is the argument
  vector of each process, in the order they are spawned.
\<close>

definition hlsArgs :: "string \<Rightarrow> string \<Rightarrow> CodecInfo \<Rightarrow> string list" where
  "hlsArgs outputDir basePath ci =
     [''-i'', ''pipe:0'']
     @ (if videoCodec ci = Some ''h264''
           \<and> \<not> (case pixFmt ci of None \<Rightarrow> False | Some p \<Rightarrow> includes_str p ''10'')
        then [''-c:v'', ''copy'']
        else [''-c:v'', ''libx264'', ''-preset'', ''ultrafast''])
     @ [''-an'', ''-g'', ''250'', ''-start_number'', ''0'', ''-hls_time'', ''10'',
        ''-hls_list_size'', ''0'',
        ''-hls_segment_filename'', path_join outputDir ''segment_%03d.ts'',
        ''-hls_base_url'', basePath, ''-f'', ''hls'', ''-hls_playlist_type'', ''vod'',
        ''-tune'', ''zerolatency'', path_join outputDir ''video.m3u8'']"

definition audioArgs :: "string \<Rightarrow> AudioStream \<Rightarrow> string list" where
  "audioArgs outputDir audio =
     [''-i'', ''pipe:0'', ''-map'', ''0:a:'' @ toString (audio_index audio)]
     @ (if audio_codec audio = ''aac'' then [''-c:a'', ''copy''] else [''-c:a'', ''aac''])
     @ [''-ac'', ''2'', ''-hls_list_size'', ''0'', ''-hls_time'', ''10'',
        ''-hls_segment_filename'',
        path_join outputDir (''audio_'' @ toString (audio_index audio) @ ''_%03d.ts''),
        ''-f'', ''hls'', ''-hls_playlist_type'', ''vod'', ''-tune'', ''zerolatency'',
        path_join outputDir (''audio_'' @ toString (audio_index audio) @ ''.m3u8'')]"

definition subtitleArgs :: "string \<Rightarrow> Subtitle \<Rightarrow> string list" where
  "subtitleArgs outputDir subtitle =
     [''-i'', ''pipe:0'', ''-map'', ''0:s:'' @ toString (subtitle_index subtitle),
      ''-scodec'', ''webvtt'',
      path_join outputDir (''subtitles_'' @ toString (subtitle_index subtitle) @ ''.vtt'')]"

datatype job = VideoJob "string list" | AudioJob "string list" | SubtitleJob "string list"

definition generateHLS :: "string \<Rightarrow> string \<Rightarrow> CodecInfo \<Rightarrow> job list" where
  "generateHLS outputDir basePath ci =
     VideoJob (hlsArgs outputDir basePath ci)
     # map (\<lambda>audio. AudioJob (audioArgs outputDir audio)) (audioStreams ci)
     @ map (\<lambda>subtitle. SubtitleJob (subtitleArgs outputDir subtitle)) (subtitles ci)"

text \<open>The value the encoder reads for an option: the argument after its first occurrence.\<close>

fun option_value :: "string \<Rightarrow> string list \<Rightarrow> string option" where
  "option_value k (a # v # rest) = (if a = k then Some v else option_value k (v # rest))"
| "option_value k [a] = None"
| "option_value k [] = None"


section \<open>The encoder\<close>



text \<open>
  The HLS muxer numbers its segment files by a template, read from left to right:
  \<open>%%\<close> is copied; a \<open>%\<close> followed by digits and \<open>d\<close>, or by \<open>d\<close>
  alone, stands for the segment number, padded with zeros on the left to the width the
  digits give; a \<open>%\<close> followed by digits without \<open>d\<close> is copied with the
  digits; every other character is copied. A template without a place for the number is
  refused.
\<close>

datatype piece = Lit char | Number nat


text \<open>\<open>printf("%0*d", w, n)\<close> on the printed number.\<close>

function zero_pad :: "nat \<Rightarrow> string \<Rightarrow> string" where
  "zero_pad w s = (if length s < w then zero_pad w (CHR ''0'' # s) else s)"
  by pat_completeness auto
termination
  by (relation "measure (\<lambda>(w, s). w - length s)") auto

definition render :: "piece list \<Rightarrow> nat \<Rightarrow> string" where
  "render ps n = concat (map (\<lambda>x. case x of Lit c \<Rightarrow> [c] | Number w \<Rightarrow> zero_pad w (toString n)) ps)"

definition has_number :: "piece list \<Rightarrow> bool" where
  "has_number ps = (\<exists>x \<in> set ps. case x of Lit c \<Rightarrow> False | Number w \<Rightarrow> True)"






section \<open>Subtitle Post-Processor\<close>

text \<open>\<open>findIndex\<close> returns \<open>None\<close> where JavaScript returns \<open>-1\<close>.\<close>

fun findIndex :: "('a \<Rightarrow> bool) \<Rightarrow> 'a list \<Rightarrow> nat option" where
  "findIndex P [] = None"
| "findIndex P (x # xs) = (if P x then Some 0 else map_option Suc (findIndex P xs))"

text \<open>\<open>lines.splice(i, 0, x)\<close>.\<close>

definition splice_insert :: "nat \<Rightarrow> 'a \<Rightarrow> 'a list \<Rightarrow> 'a list" where
  "splice_insert i x xs = take i xs @ x # drop i xs"

definition timestamp_map :: string where
  "timestamp_map = ''X-TIMESTAMP-MAP=LOCAL:00:00:00.000,MPEGTS:135000''"

text \<open>
  The file holds bytes; the text read from it with the encoding \<open>utf-8\<close> is a
  sequence of Unicode code points, here natural numbers. (JavaScript keeps text in
  UTF-16 code units; the decoder yields scalar values only and the operations of the
  patch look for single ASCII characters, so nothing depends on the difference.)
  Reading does not refuse ill-formed bytes: as in the WHATWG decoder that Node follows,
  every maximal ill-formed part becomes U+FFFD. A byte order mark is kept.
\<close>

definition scalar :: "nat \<Rightarrow> bool" where
  "scalar c = (c < 0xD800 \<or> (0xDFFF < c \<and> c \<le> 0x10FFFF))"

text \<open>
  The continuation bytes of one character: \<open>n\<close> more bytes are needed, the next of
  them within \<open>lo\<close> and \<open>hi\<close>, and \<open>cp\<close> holds the bits read so far. The
  result is the code point and the bytes that follow it. A byte out of range ends the
  character as U+FFFD and is read again as the start of the next; so does the end of
  the input.
\<close>

fun continuation :: "nat \<Rightarrow> nat \<Rightarrow> nat \<Rightarrow> nat \<Rightarrow> nat list \<Rightarrow> nat \<times> nat list" where
  "continuation 0 lo hi cp bs = (cp, bs)"
| "continuation (Suc n) lo hi cp [] = (0xFFFD, [])"
| "continuation (Suc n) lo hi cp (b # bs) =
     (if lo \<le> b \<and> b \<le> hi then continuation n 0x80 0xBF (cp * 64 + b mod 64) bs
      else (0xFFFD, b # bs))"

text \<open>One character, from its first byte \<open>b\<close> and the bytes after it.\<close>

definition decode_step :: "nat \<Rightarrow> nat list \<Rightarrow> nat \<times> nat list" where
  "decode_step b bs =
     (if b < 0x80 then (b, bs)
      else if 0xC2 \<le> b \<and> b \<le> 0xDF then continuation 1 0x80 0xBF (b mod 32) bs
      else if 0xE0 \<le> b \<and> b \<le> 0xEF then
        continuation 2 (if b = 0xE0 then 0xA0 else 0x80) (if b = 0xED then 0x9F else 0xBF)
          (b mod 16) bs
      else if 0xF0 \<le> b \<and> b \<le> 0xF4 then
        continuation 3 (if b = 0xF0 then 0x90 else 0x80) (if b = 0xF4 then 0x8F else 0xBF)
          (b mod 8) bs
      else (0xFFFD, bs))"

function utf8_decode_bytes :: "nat list \<Rightarrow> nat list" where
  "utf8_decode_bytes [] = []"
| "utf8_decode_bytes (b # bs) =
     fst (decode_step b bs) # utf8_decode_bytes (snd (decode_step b bs))"
  by pat_completeness auto
termination
proof (relation "measure length", goal_cases)
  case 1
  show ?case by simp
next
  case (2 b bs)
  have c: "length (snd (continuation n lo hi cp xs)) \<le> length xs" for n lo hi cp xs
    by (induction n lo hi cp xs rule: continuation.induct) auto
  have "length (snd (decode_step b bs)) \<le> length bs"
    unfolding decode_step_def using c by simp
  then show ?case by simp
qed

definition utf8_decode :: "string \<Rightarrow> nat list" where
  "utf8_decode content = utf8_decode_bytes (map of_char content)"

text \<open>
  Writing with the encoding \<open>utf-8\<close>. What is not a scalar value (in JavaScript a
  lone surrogate) is written as U+FFFD.
\<close>

definition utf8_encode_cp :: "nat \<Rightarrow> nat list" where
  "utf8_encode_cp c =
     (if c < 0x80 then [c]
      else if c < 0x800 then [0xC0 + c div 64, 0x80 + c mod 64]
      else if \<not> scalar c then [0xEF, 0xBF, 0xBD]
      else if c < 0x10000 then [0xE0 + c div 4096, 0x80 + c div 64 mod 64, 0x80 + c mod 64]
      else [0xF0 + c div 262144, 0x80 + c div 4096 mod 64, 0x80 + c div 64 mod 64,
            0x80 + c mod 64])"

definition utf8_encode :: "nat list \<Rightarrow> string" where
  "utf8_encode t = map char_of (concat (map utf8_encode_cp t))"

text \<open>The text of a string literal of the program, whose characters are ASCII.\<close>

definition literal :: "string \<Rightarrow> nat list" where
  "literal s = map of_char s"

text \<open>\<open>content.split(sep)\<close> and \<open>lines.join(sep)\<close> on text.\<close>

fun split_on :: "'a \<Rightarrow> 'a list \<Rightarrow> 'a list list" where
  "split_on sep [] = [[]]"
| "split_on sep (c # s) =
     (if c = sep then [] # split_on sep s
      else (case split_on sep s of [] \<Rightarrow> [[c]] | l # ls \<Rightarrow> (c # l) # ls))"

fun join_on :: "'a \<Rightarrow> 'a list list \<Rightarrow> 'a list" where
  "join_on sep [] = []"
| "join_on sep [l] = l"
| "join_on sep (l # m # ls) = l @ sep # join_on sep (m # ls)"

definition patch_lines :: "nat list list \<Rightarrow> nat list list" where
  "patch_lines lines =
     (case findIndex (\<lambda>line. startsWith line (literal ''WEBVTT'')) lines of
        None \<Rightarrow> lines
      | Some headerIndex \<Rightarrow> splice_insert (headerIndex + 1) (literal timestamp_map) lines)"

text \<open>
  The operating system may reject a write (no permission, no space left, the directory
  gone); what a rejected write leaves behind is not the controller's to say. So the
  outcome of the write comes from outside: \<open>None\<close> when it succeeds, the error and
  the file system left behind when it is rejected.
\<close>

type_synonym write_rejection = "(error \<times> fs) option"

text \<open>
  The body of the \<open>try\<close> block, then the whole operation: a rejection inside the
  block, of the read or of the write, is caught and printed to the console, and the
  caller always gets a normal return. The state is the file system and the lines
  printed by \<open>console.error\<close>.
\<close>

definition patchVtt_try :: "write_rejection \<Rightarrow> string \<Rightarrow> fs \<Rightarrow> (error \<times> fs) + fs" where
  "patchVtt_try rejection vttPath s =
     (case readFile s vttPath of
        Inl err \<Rightarrow> Inl (err, s)
      | Inr content \<Rightarrow>
          (case rejection of
             Some failure \<Rightarrow> Inl failure
           | None \<Rightarrow>
               Inr (writeFile s vttPath
                      (utf8_encode (join_on 10 (patch_lines (split_on 10 (utf8_decode content))))))))"

definition patchVttWithTimestampMap ::
  "write_rejection \<Rightarrow> string \<Rightarrow> fs \<times> string list \<Rightarrow> (error + unit) \<times> fs \<times> string list" where
  "patchVttWithTimestampMap rejection vttPath w =
     (case patchVtt_try rejection vttPath (fst w) of
        Inl failure \<Rightarrow> (Inr (), snd failure, snd w @ [''[Subtitle Timestamp Patch Error]''])
      | Inr s' \<Rightarrow> (Inr (), s', snd w))"


section \<open>Codec Inspector\<close>

text \<open>
  \<open>getFileCodecInfoFromStream\<close> builds the codec information from what the probing
  tool reports, or rejects with the tool's error.
\<close>

record ProbeStream =
  codec_type :: string
  codec_name :: "string option"
  pix_fmt :: "string option"
  tag_title :: "string option"
  tag_language :: "string option"

record Metadata =
  format_duration :: "real option"
  streams :: "ProbeStream list"

text \<open>\<open>a || b\<close> on an optional string: the empty string is falsy too.\<close>

definition or_else :: "string option \<Rightarrow> string \<Rightarrow> string" where
  "or_else a b = (case a of None \<Rightarrow> b | Some v \<Rightarrow> if v = [] then b else v)"

definition toLower :: "char \<Rightarrow> char" where
  "toLower c =
     (if (65::nat) \<le> of_char c \<and> of_char c \<le> (90::nat) then char_of (of_char c + (32::nat)) else c)"

text \<open>\<open>/forced/i.test(title)\<close>; an absent title is tested as the text \<open>undefined\<close>.\<close>

definition test_forced :: "string option \<Rightarrow> bool" where
  "test_forced t =
     includes_str (map toLower (case t of None \<Rightarrow> ''undefined'' | Some v \<Rightarrow> v)) ''forced''"

fun enumerate_from :: "nat \<Rightarrow> 'a list \<Rightarrow> (nat \<times> 'a) list" where
  "enumerate_from i [] = []"
| "enumerate_from i (x # xs) = (i, x) # enumerate_from (Suc i) xs"

definition codecInfo_of :: "Metadata \<Rightarrow> CodecInfo" where
  "codecInfo_of metadata =
     (let videoStream = find (\<lambda>s. codec_type s = ''video'') (streams metadata);
          subtitleStreams =
            map (\<lambda>(index, s).
                   \<lparr>subtitle_index = index,
                    subtitle_title = or_else (tag_title s) (toString (index + 1)),
                    subtitle_language = or_else (tag_language s) ''unknown'',
                    subtitle_forced = test_forced (tag_title s),
                    subtitle_default = (index = 0)\<rparr>)
              (enumerate_from 0 (filter (\<lambda>s. codec_type s = ''subtitle'') (streams metadata)));
          audio =
            map (\<lambda>(index, s).
                   \<lparr>audio_index = index,
                    audio_name = or_else (tag_title s) (toString (index + 1)),
                    audio_language = or_else (tag_language s) ''unknown'',
                    audio_default = (index = 0),
                    audio_codec = or_else (codec_name s) ''unknown''\<rparr>)
              (enumerate_from 0 (filter (\<lambda>s. codec_type s = ''audio'') (streams metadata)))
      in \<lparr>videoCodec = (case videoStream of None \<Rightarrow> None | Some v \<Rightarrow> codec_name v),
          pixFmt = (case videoStream of None \<Rightarrow> None | Some v \<Rightarrow> pix_fmt v),
          subtitles = subtitleStreams,
          audioStreams = audio,
          duration = (case format_duration metadata of None \<Rightarrow> 3600 | Some d \<Rightarrow> d)\<rparr>)"

definition getFileCodecInfoFromStream :: "error + Metadata \<Rightarrow> error + CodecInfo" where
  "getFileCodecInfoFromStream ffprobe =
     (case ffprobe of Inl err \<Rightarrow> Inl err | Inr metadata \<Rightarrow> Inr (codecInfo_of metadata))"

section \<open>The range parser\<close>

text \<open>
  Modelled from the spec: \<open>parseRangeHeader\<close> of the module
  \<open>utils/parse-range-header\<close>, whose source is not among the files. The
  specification says of it: a syntactically valid single-range request, of which it
  shows the form \<open>bytes=0-99\<close>, gives the exact requested byte span; a missing or
  unparsable \<open>Range\<close> header gives nothing, and so does a header requesting
  \<open>start > end\<close> or \<open>start \<ge> length\<close>. The one form read here is
  \<open>bytes=<start>-<end>\<close> with both numbers written out.
\<close>

definition parse_single_range :: "string \<Rightarrow> (int \<times> int) option" where
  "parse_single_range v =
     (if startsWith v ''bytes='' then
        (let r = drop 6 v;
             a = takeWhile (\<lambda>c. c \<noteq> CHR ''-'') r;
             b = drop (Suc (length a)) r
         in if length a < length r then
              (case parse_nat a of
                 None \<Rightarrow> None
               | Some start \<Rightarrow>
                   (case parse_nat b of None \<Rightarrow> None | Some end \<Rightarrow> Some (int start, int end)))
            else None)
      else None)"

definition parseRangeHeader_spec :: "string option \<Rightarrow> int \<Rightarrow> (int \<times> int) option" where
  "parseRangeHeader_spec h len =
     (case h of
        None \<Rightarrow> None
      | Some v \<Rightarrow>
          (case parse_single_range v of
             None \<Rightarrow> None
           | Some (start, end) \<Rightarrow> if start > end \<or> start \<ge> len then None else Some (start, end)))"

section \<open>The play operation\<close>

record TorrentFile =
  file_path :: string
  file_length :: int

record PlayParams =
  sourceName :: string
  sourceId :: string
  infoHash :: string
  fileIdx :: nat
  delivery :: string

record Request =
  req_method :: string
  req_range :: "string option"

datatype body = NoBody | Content string | FileStream int int

record Response =
  resp_status :: nat
  resp_headers :: "(string \<times> string) list"
  resp_body :: body

text \<open>
  What \<open>play\<close> takes from outside the controller: the add-on directory, the outcome
  of parameter validation and of the torrent lookup, what the probing tool reports on the
  file, the range parser, the MIME table, JavaScript's number formatting, and
  \<open>background k\<close>, what the encoder processes and everything else do to the file
  system while the request sleeps for the \<open>k\<close>-th time.
\<close>

record Collaborators =
  ADDON_DIR :: string
  safeParse :: "string + PlayParams"
  getFile :: "PlayParams \<Rightarrow> error + TorrentFile"
  ffprobe :: "TorrentFile \<Rightarrow> error + Metadata"
  parseRangeHeader :: "string option \<Rightarrow> int \<Rightarrow> (int \<times> int) option"
  mime_getType :: "string \<Rightarrow> string option"
  numberToString :: "real \<Rightarrow> string"
  background :: "nat \<Rightarrow> fs \<Rightarrow> fs"

definition hls_outputDir :: "string \<Rightarrow> PlayParams \<Rightarrow> string" where
  "hls_outputDir addon_dir p =
     path_join (path_join (addon_dir @ ''/hls'') (infoHash p)) (toString (fileIdx p))"

text \<open>
  The block run when the output directory does not exist. It returns the file system it
  leaves, and either the error it rejects with or the encoder processes it has spawned.
  The block is one step: nothing else touches the file system between its awaits. What
  \<open>play\<close> prints to the console is left out.
\<close>

definition init_session ::
  "(real \<Rightarrow> string) \<Rightarrow> string \<Rightarrow> error + CodecInfo \<Rightarrow> fs \<Rightarrow> fs \<times> (error + job list)" where
  "init_session num outputDir probe s =
     (let s1 = mkdirSync s outputDir in
      case probe of
        Inl err \<Rightarrow> (s1, Inl err)
      | Inr codecInfo \<Rightarrow>
          (generatePreGeneratedM3U8Master outputDir codecInfo
             (generatePreGeneratedM3U8Video outputDir codecInfo
                (generatePreGeneratedM3U8Subtitle num outputDir codecInfo
                   (generatePreGeneratedM3U8Audio outputDir codecInfo s1))),
           Inr (generateHLS outputDir [] codecInfo)))"

text \<open>
  \<open>while (!existsSync(p)) await sleep(100)\<close>, with a bound on the number of sleeps:
  \<open>None\<close> is a loop still running when the bound is used up. The state is the number
  of sleeps of the request so far and the file system; the result adds the sleeps left.
\<close>

fun wait_for :: "nat \<Rightarrow> (nat \<Rightarrow> fs \<Rightarrow> fs) \<Rightarrow> string \<Rightarrow> nat \<times> fs \<Rightarrow> (nat \<times> nat \<times> fs) option" where
  "wait_for 0 bg p (k, s) = (if existsSync s p then Some (0, k, s) else None)"
| "wait_for (Suc fuel) bg p (k, s) =
     (if existsSync s p then Some (Suc fuel, k, s) else wait_for fuel bg p (Suc k, bg k s))"

text \<open>The file system after \<open>k\<close> sleeps of a request that started polling in \<open>s\<close>.\<close>

fun world_at :: "(nat \<Rightarrow> fs \<Rightarrow> fs) \<Rightarrow> fs \<Rightarrow> nat \<Rightarrow> fs" where
  "world_at bg s 0 = s"
| "world_at bg s (Suc k) = bg k (world_at bg s k)"

text \<open>
  The result of a request: the number of sleeps it took, the file system it leaves, and
  the exception thrown or the response returned.
\<close>

type_synonym outcome = "nat \<times> fs \<times> (error + Response)"

text \<open>
  The first step of an HLS request: the session is set up unless its output directory
  exists already.
\<close>

definition ensure_session :: "Collaborators \<Rightarrow> PlayParams \<Rightarrow> TorrentFile \<Rightarrow> fs \<Rightarrow> fs \<times> (error + job list)" where
  "ensure_session env params file s =
     (let outputDir = hls_outputDir (ADDON_DIR env) params in
      if \<not> existsSync s outputDir
      then init_session (numberToString env) outputDir
             (getFileCodecInfoFromStream (ffprobe env file)) s
      else (s, Inr []))"

definition play_hls :: "nat \<Rightarrow> Collaborators \<Rightarrow> Request \<Rightarrow> PlayParams \<Rightarrow> TorrentFile \<Rightarrow> fs \<Rightarrow> outcome option" where
  "play_hls fuel env req params file s =
     (if req_method req = ''HEAD'' then
        Some (0, s, Inr \<lparr>resp_status = 200,
                       resp_headers = [(''Content-Length'', toString_int (file_length file)),
                                       (''Content-Type'', ''application/vnd.apple.mpegurl'')],
                       resp_body = NoBody\<rparr>)
      else
        let outputDir = hls_outputDir (ADDON_DIR env) params;
            masterPath = path_join outputDir ''master.m3u8''
        in case ensure_session env params file s of
             (s1, Inl err) \<Rightarrow> Some (0, s1, Inl err)
           | (s1, Inr jobs) \<Rightarrow>
               (case wait_for fuel (background env) masterPath (0, s1) of
                  None \<Rightarrow> None
                | Some (fuel1, k1, s2) \<Rightarrow>
                    (case wait_for fuel1 (background env) (path_join outputDir ''segment_004.ts'') (k1, s2) of
                       None \<Rightarrow> None
                     | Some (fuel2, k2, s3) \<Rightarrow>
                         (case readFile s3 masterPath of
                            Inl err \<Rightarrow> Some (k2, s3, Inl err)
                          | Inr m3u8File \<Rightarrow>
                              Some (k2, s3, Inr \<lparr>resp_status = 200,
                                                resp_headers = [(''Content-Type'', ''application/vnd.apple.mpegurl'')],
                                                resp_body = Content m3u8File\<rparr>)))))"

text \<open>
  Names for what an HLS request polls: the master playlist and the fifth video segment
  of its session, and the file system it sees after \<open>k\<close> sleeps.
\<close>

abbreviation session_master :: "Collaborators \<Rightarrow> PlayParams \<Rightarrow> string" where
  "session_master env params \<equiv> path_join (hls_outputDir (ADDON_DIR env) params) ''master.m3u8''"

abbreviation session_segment_004 :: "Collaborators \<Rightarrow> PlayParams \<Rightarrow> string" where
  "session_segment_004 env params \<equiv>
     path_join (hls_outputDir (ADDON_DIR env) params) ''segment_004.ts''"

abbreviation session_world :: "Collaborators \<Rightarrow> PlayParams \<Rightarrow> TorrentFile \<Rightarrow> fs \<Rightarrow> nat \<Rightarrow> fs" where
  "session_world env params file s \<equiv>
     world_at (background env) (fst (ensure_session env params file s))"

definition play_stream :: "Collaborators \<Rightarrow> Request \<Rightarrow> TorrentFile \<Rightarrow> fs \<Rightarrow> outcome" where
  "play_stream env req file s =
     (let fileType = or_else (mime_getType env (file_path file)) ''application/octet-stream'' in
      if req_method req = ''HEAD'' then
        (0, s, Inr \<lparr>resp_status = 200,
                  resp_headers = [(''Content-Length'', toString_int (file_length file)),
                                  (''Content-Type'', fileType)],
                  resp_body = NoBody\<rparr>)
      else
        case parseRangeHeader env (req_range req) (file_length file) of
          None \<Rightarrow>
            (0, s, Inr \<lparr>resp_status = 416,
                      resp_headers = [(''Content-Range'', ''bytes */'' @ toString_int (file_length file))],
                      resp_body = NoBody\<rparr>)
        | Some (start, end) \<Rightarrow>
            (0, s, Inr \<lparr>resp_status = 206,
                      resp_headers =
                        [(''Content-Range'',
                          ''bytes '' @ toString_int start @ ''-'' @ toString_int end @ ''/''
                            @ toString_int (file_length file)),
                         (''Content-Length'', toString_int (end - start + 1)),
                         (''Content-Type'', fileType),
                         (''Accept-Ranges'', ''bytes'')],
                      resp_body = FileStream start end\<rparr>))"

definition play :: "nat \<Rightarrow> Collaborators \<Rightarrow> Request \<Rightarrow> fs \<Rightarrow> outcome option" where
  "play fuel env req s =
     (case safeParse env of
        Inl message \<Rightarrow> Some (0, s, Inl (HTTPException 400 message))
      | Inr params \<Rightarrow>
          (case getFile env params of
             Inl err \<Rightarrow> Some (0, s, Inl err)
           | Inr file \<Rightarrow>
               if delivery params = ''hls'' then play_hls fuel env req params file s
               else Some (play_stream env req file s)))"

text \<open>The value of a response header.\<close>

definition header :: "Response \<Rightarrow> string \<Rightarrow> string option" where
  "header r k = map_of (resp_headers r) k"

section \<open>The stream listing\<close>

text \<open>
  The four regular expressions tested on the \<open>User-Agent\<close> header. \<open>.\<close> matches
  any character but a line terminator, \<open>\s\<close> the white-space characters.
\<close>

definition is_line_terminator :: "char \<Rightarrow> bool" where
  "is_line_terminator c = (c = CHR 0x0A \<or> c = CHR 0x0D)"

definition is_space :: "char \<Rightarrow> bool" where
  "is_space c = (c \<in> set [CHR 0x09, CHR 0x0A, CHR 0x0B, CHR 0x0C, CHR 0x0D, CHR 0x20, CHR 0xA0])"

text \<open>\<open>.*p\<close> matched at the start of the text.\<close>

fun dot_star_then :: "string \<Rightarrow> string \<Rightarrow> bool" where
  "dot_star_then p [] = startsWith [] p"
| "dot_star_then p (c # s) =
     (startsWith (c # s) p \<or> (\<not> is_line_terminator c \<and> dot_star_then p s))"

fun test_Android_TV :: "string \<Rightarrow> bool" where
  "test_Android_TV [] = False"
| "test_Android_TV (c # s) =
     ((startsWith (c # s) ''Android'' \<and> dot_star_then ''TV'' (drop 6 s)) \<or> test_Android_TV s)"

fun test_Google_TV :: "string \<Rightarrow> bool" where
  "test_Google_TV [] = False"
| "test_Google_TV (c # s) =
     ((startsWith (c # s) ''Google''
        \<and> (case drop 5 s of [] \<Rightarrow> False | w # r \<Rightarrow> is_space w \<and> startsWith r ''TV''))
      \<or> test_Google_TV s)"

definition streamType :: "string option \<Rightarrow> string" where
  "streamType userAgent =
     (case userAgent of
        None \<Rightarrow> ''hls''
      | Some ua \<Rightarrow>
          if test_Android_TV ua \<or> test_Google_TV ua \<or> includes_str ua ''CrKey''
               \<or> includes_str ua ''Android''
          then ''hls'' else ''stream'')"

text \<open>The argument object of one \<open>convertTorrentToStream\<close> call.\<close>

record 't ConvertArgs =
  torrent :: 't
  isRecommended :: bool
  deviceToken :: string
  season :: "nat option"
  episode :: "nat option"
  preferredLanguage :: string
  stream_type :: string

record StreamQuery =
  q_deviceToken :: string
  q_season :: "nat option"
  q_episode :: "nat option"

definition convert_calls :: "StreamQuery \<Rightarrow> string \<Rightarrow> string option \<Rightarrow> 't list \<Rightarrow> 't ConvertArgs list" where
  "convert_calls q lang userAgent orderedTorrents =
     map (\<lambda>(i, t).
            \<lparr>torrent = t, isRecommended = (i = 0), deviceToken = q_deviceToken q,
             season = q_season q, episode = q_episode q, preferredLanguage = lang,
             stream_type = streamType userAgent\<rparr>)
       (enumerate_from 0 orderedTorrents)"

text \<open>
  \<open>getStreamsForMedia\<close> after validation, user lookup and ordering: the streams of the
  JSON response, \<open>convertTorrentToStream\<close> being the stream service's.
\<close>

definition getStreamsForMedia ::
  "('t ConvertArgs \<Rightarrow> 'st) \<Rightarrow> StreamQuery \<Rightarrow> string \<Rightarrow> string option \<Rightarrow> 't list \<Rightarrow> 'st list" where
  "getStreamsForMedia convertTorrentToStream q lang userAgent orderedTorrents =
     map convertTorrentToStream (convert_calls q lang userAgent orderedTorrents)"


section \<open>Example inputs\<close>

definition example_file :: TorrentFile where
  "example_file = \<lparr>file_path = ''movie.mkv'', file_length = 1000\<rparr>"

definition example_params :: "string \<Rightarrow> PlayParams" where
  "example_params d =
     \<lparr>sourceName = ''ncore'', sourceId = ''42'', infoHash = ''abc'', fileIdx = 0, delivery = d\<rparr>"

text \<open>
  Collaborators for a request of delivery type \<open>d\<close>, with a given probe report and
  background, and the range parser of the specification.
\<close>

definition example_env :: "string \<Rightarrow> (error + Metadata) \<Rightarrow> (nat \<Rightarrow> fs \<Rightarrow> fs) \<Rightarrow> Collaborators" where
  "example_env d pr bg =
     \<lparr>ADDON_DIR = ''/addon'',
      safeParse = Inr (example_params d),
      getFile = (\<lambda>p. Inr example_file),
      ffprobe = (\<lambda>f. pr),
      parseRangeHeader = parseRangeHeader_spec,
      mime_getType = (\<lambda>p. None),
      numberToString = (\<lambda>x. toString_int \<lfloor>x\<rfloor>),
      background = bg\<rparr>"

definition example_codecInfo :: CodecInfo where
  "example_codecInfo =
     \<lparr>videoCodec = Some ''hevc'', pixFmt = Some ''yuv420p10le'',
      subtitles = [\<lparr>subtitle_index = 0, subtitle_title = ''1'', subtitle_language = ''hun'',
                    subtitle_forced = False, subtitle_default = True\<rparr>],
      audioStreams = [\<lparr>audio_index = 0, audio_name = ''1'', audio_language = ''hun'',
                       audio_default = True, audio_codec = ''ac3''\<rparr>,
                      \<lparr>audio_index = 1, audio_name = ''2'', audio_language = ''eng'',
                       audio_default = False, audio_codec = ''aac''\<rparr>],
      duration = 25\<rparr>"

definition example_audio :: AudioStream where
  "example_audio =
     \<lparr>audio_index = 1, audio_name = ''2'', audio_language = ''eng'', audio_default = False,
      audio_codec = ''aac''\<rparr>"

definition example_vtt :: string where
  "example_vtt = join_nl [''WEBVTT'', [], ''00:00:01.000 --> 00:00:02.000'', ''Hello'']"

definition example_srt :: string where
  "example_srt = join_nl [''1'', ''00:00:01,000 --> 00:00:02,000'', ''Hello'']"

text \<open>A subtitle file in Latin-1, \<open>caf\<close> and the byte E9, then a second line: not well-formed UTF-8.\<close>

definition example_latin1 :: string where
  "example_latin1 = [CHR 0x63, CHR 0x61, CHR 0x66, CHR 0xE9, CHR 0x0A, CHR 0x78]"

definition example_metadata :: Metadata where
  "example_metadata =
     \<lparr>format_duration = Some 60,
      streams = [\<lparr>codec_type = ''video'', codec_name = Some ''h264'', pix_fmt = Some ''yuv420p'',
                  tag_title = None, tag_language = None\<rparr>,
                 \<lparr>codec_type = ''audio'', codec_name = Some ''aac'', pix_fmt = None,
                  tag_title = None, tag_language = Some ''hun''\<rparr>]\<rparr>"

text \<open>An encoder that finishes video segment \<open>k\<close> during the \<open>k\<close>-th sleep.\<close>

definition example_background :: "nat \<Rightarrow> fs \<Rightarrow> fs" where
  "example_background k s =
     writeFile s (path_join ''/addon/hls/abc/0'' (video_segment_name k)) ''segment data''"

declare toString.simps [simp del]

declare push_segments.simps [simp del]


declare zero_pad.simps [simp del]

section \<open>Facts about strings\<close>

lemma startsWith_iff: "startsWith s p = (\<exists>b. s = p @ b)"
  unfolding startsWith_def
  by (metis append_eq_conv_conj append_take_drop_id)

lemma includes_str_iff: "includes_str s p = (\<exists>a b. s = a @ p @ b)"
proof (induction s)
  case Nil
  then show ?case by (auto simp: startsWith_iff)
next
  case (Cons c s)
  show ?case
  proof
    assume "includes_str (c # s) p"
    then consider "startsWith (c # s) p" | "includes_str s p" by auto
    then show "\<exists>a b. c # s = a @ p @ b"
    proof cases
      case 1
      then obtain b where "c # s = p @ b" by (auto simp: startsWith_iff)
      then have "c # s = [] @ p @ b" by simp
      then show ?thesis by blast
    next
      case 2
      then obtain a b where "s = a @ p @ b" using Cons.IH by blast
      then have "c # s = (c # a) @ p @ b" by simp
      then show ?thesis by blast
    qed
  next
    assume "\<exists>a b. c # s = a @ p @ b"
    then obtain a b where ab: "c # s = a @ p @ b" by blast
    show "includes_str (c # s) p"
    proof (cases a)
      case Nil
      then have "startsWith (c # s) p" using ab by (simp add: startsWith_iff)
      then show ?thesis by simp
    next
      case (Cons x a')
      then have "s = a' @ p @ b" using ab by simp
      then show ?thesis using Cons.IH by auto
    qed
  qed
qed

section \<open>Facts about lines\<close>

lemma split_nl_not_Nil: "split_nl s \<noteq> []"
  by (induction s) (auto split: list.splits)

lemma split_nl_line: "CHR 0x0A \<notin> set l \<Longrightarrow> split_nl (l @ CHR 0x0A # s) = l # split_nl s"
  by (induction l) auto

lemma split_nl_single: "CHR 0x0A \<notin> set l \<Longrightarrow> split_nl l = [l]"
  by (induction l) auto

lemma split_join_nl:
  "ls \<noteq> [] \<Longrightarrow> \<forall>l \<in> set ls. CHR 0x0A \<notin> set l \<Longrightarrow> split_nl (join_nl ls) = ls"
proof (induction ls rule: join_nl.induct)
  case 1
  then show ?case by simp
next
  case (2 l)
  then show ?case by (simp add: split_nl_single)
next
  case (3 l m ls)
  then show ?case by (simp add: split_nl_line)
qed

section \<open>Facts about decimal printing\<close>

lemma digit_char_inj: "a < 10 \<Longrightarrow> b < 10 \<Longrightarrow> digit_char a = digit_char b \<Longrightarrow> a = b"
proof -
  assume a: "a < 10" and b: "b < 10" and e: "digit_char a = digit_char b"
  have d: "distinct ''0123456789''" by simp
  have l: "length ''0123456789'' = 10" by simp
  show "a = b"
    using nth_eq_iff_index_eq [OF d, of a b] a b e l unfolding digit_char_def by simp
qed

lemma digit_char_digit: "d < 10 \<Longrightarrow> digit_char d \<in> set ''0123456789''"
  unfolding digit_char_def by (rule nth_mem) simp

lemma toString_digits: "set (toString n) \<subseteq> set ''0123456789''"
proof (induction n rule: toString.induct)
  case (1 n)
  show ?case
  proof (cases "n < 10")
    case True
    then show ?thesis
      using digit_char_digit [of n] by (subst toString.simps) simp
  next
    case False
    have "n mod 10 < 10" by simp
    then have "digit_char (n mod 10) \<in> set ''0123456789''" by (rule digit_char_digit)
    then show ?thesis
      using 1 False by (subst toString.simps) simp
  qed
qed

lemma toString_not_Nil: "toString n \<noteq> []"
  by (subst toString.simps) simp

lemma length_toString_1: "n < 10 \<Longrightarrow> length (toString n) = 1"
  by (subst toString.simps) simp


lemma length_toString_ge2: "10 \<le> n \<Longrightarrow> 2 \<le> length (toString n)"
proof -
  assume a: "10 \<le> n"
  have "1 \<le> length (toString (n div 10))"
    using toString_not_Nil [of "n div 10"] by (cases "toString (n div 10)") auto
  then show ?thesis using a by (subst toString.simps) simp
qed



lemma toString_inj: "toString n = toString m \<Longrightarrow> n = m"
proof (induction n arbitrary: m rule: toString.induct)
  case (1 n)
  show ?case
  proof (cases "n < 10")
    case n: True
    show ?thesis
    proof (cases "m < 10")
      case True
      then show ?thesis
        using n "1.prems" digit_char_inj [of n m]
        by (simp add: toString.simps [of n] toString.simps [of m])
    next
      case False
      then have "2 \<le> length (toString m)" using length_toString_ge2 [of m] by simp
      then show ?thesis using length_toString_1 [OF n] "1.prems" by simp
    qed
  next
    case n: False
    show ?thesis
    proof (cases "m < 10")
      case True
      have "2 \<le> length (toString n)" using length_toString_ge2 [of n] n by simp
      then show ?thesis using length_toString_1 [OF True] "1.prems" by simp
    next
      case False
      have e: "toString (n div 10) @ [digit_char (n mod 10)]
                 = toString (m div 10) @ [digit_char (m mod 10)]"
        using "1.prems" n False by (simp add: toString.simps [of n] toString.simps [of m])
      then have "toString (n div 10) = toString (m div 10)"
        and d: "digit_char (n mod 10) = digit_char (m mod 10)" by simp_all
      then have q: "n div 10 = m div 10" using "1.IH" n by blast
      have r: "n mod 10 = m mod 10"
        using digit_char_inj [of "n mod 10" "m mod 10"] d by simp
      show ?thesis
        using q r by (metis div_mult_mod_eq)
    qed
  qed
qed

section \<open>Facts about the segment loop\<close>

lemma push_segments_eq:
  "push_segments nm n i acc = acc @ concat (map (\<lambda>j. [extinf, nm j]) [i..<nat n])"
proof (induction nm n i acc rule: push_segments.induct)
  case (1 nm n i acc)
  show ?case
  proof (cases "int i < n")
    case True
    then have "i < nat n" by simp
    then have "[i..<nat n] = i # [Suc i..<nat n]" by (rule upt_conv_Cons)
    then show ?thesis
      using 1 True by (subst push_segments.simps) simp
  next
    case False
    then have "[i..<nat n] = []" by simp
    then show ?thesis
      using False by (subst push_segments.simps) simp
  qed
qed

section \<open>Facts about the placeholder playlists\<close>

lemma toString_10: "toString 10 = ''10''"
  by (simp add: toString.simps digit_char_def)

lemma extinf_eq: "extinf = ''#EXTINF:10,''"
  by (simp add: extinf_def hlsTime_def toString_10)

lemma m3u8_header_eq:
  "m3u8_header = [''#EXTM3U'', ''#EXT-X-VERSION:3'', ''#EXT-X-TARGETDURATION:10'', ''#EXT-X-MEDIA-SEQUENCE:0'']"
  by (simp add: m3u8_header_def hlsTime_def toString_10)

lemma numberOfSegments_eq: "numberOfSegments ci = \<lceil>duration ci / 10\<rceil>"
  by (simp add: numberOfSegments_def hlsTime_def)

lemma video_m3u8_eq:
  "video_m3u8 ci = placeholder_playlist video_segment_name (nat \<lceil>duration ci / 10\<rceil>)"
  by (simp add: video_m3u8_def push_segments_eq placeholder_playlist_def extinf_eq
      m3u8_header_eq numberOfSegments_eq)

lemma audio_m3u8_eq:
  "audio_m3u8 ci a
     = placeholder_playlist (audio_segment_name (audio_index a)) (nat \<lceil>duration ci / 10\<rceil>)"
  by (simp add: audio_m3u8_def push_segments_eq placeholder_playlist_def extinf_eq
      m3u8_header_eq numberOfSegments_eq)

lemma segment_entries_pairs:
  "segment_entries (concat (map (\<lambda>i. [''#EXTINF:10,'', nm i]) js) @ [e]) = map nm js"
  by (induction js) (simp_all add: startsWith_def)

lemma segment_entries_placeholder:
  "segment_entries (placeholder_playlist nm n) = map nm [0..<n]"
proof -
  let ?rest = "concat (map (\<lambda>i. [''#EXTINF:10,'', nm i]) [0..<n]) @ [''#EXT-X-ENDLIST'']"
  obtain x xs where r: "?rest = x # xs" by (cases ?rest) auto
  have "segment_entries (placeholder_playlist nm n) = segment_entries ?rest"
    unfolding placeholder_playlist_def append_assoc r by (simp add: startsWith_def)
  then show ?thesis by (simp only: segment_entries_pairs)
qed

lemma nl_notin_toString: "CHR 0x0A \<notin> set (toString n)"
  using toString_digits [of n] by auto


lemma nl_notin_video_segment_name: "CHR 0x0A \<notin> set (video_segment_name i)"
  by (simp add: video_segment_name_def padStart_def nl_notin_toString)

lemma nl_notin_audio_segment_name: "CHR 0x0A \<notin> set (audio_segment_name idx i)"
  by (simp add: audio_segment_name_def padStart_def nl_notin_toString)

lemma placeholder_playlist_lines:
  "\<forall>i. CHR 0x0A \<notin> set (nm i) \<Longrightarrow> \<forall>l \<in> set (placeholder_playlist nm n). CHR 0x0A \<notin> set l"
  by (auto simp: placeholder_playlist_def)

lemma split_join_placeholder:
  assumes "\<forall>i. CHR 0x0A \<notin> set (nm i)"
  shows "split_nl (join_nl (placeholder_playlist nm n)) = placeholder_playlist nm n"
proof (rule split_join_nl)
  show "placeholder_playlist nm n \<noteq> []" by (simp add: placeholder_playlist_def)
  show "\<forall>l \<in> set (placeholder_playlist nm n). CHR 0x0A \<notin> set l"
    using assms by (rule placeholder_playlist_lines)
qed

lemma video_playlist_written:
  "playlist_at (generatePreGeneratedM3U8Video outputDir ci s) (path_join outputDir ''video.m3u8'')
     = placeholder_playlist video_segment_name (nat \<lceil>duration ci / 10\<rceil>)"
  by (simp add: playlist_at_def generatePreGeneratedM3U8Video_def writeFile_def video_m3u8_eq
      split_join_placeholder nl_notin_video_segment_name)

lemma audio_playlist_name_inj:
  "path_join outputDir (audio_playlist_name a) = path_join outputDir (audio_playlist_name b)
     \<Longrightarrow> audio_index a = audio_index b"
  by (auto simp: path_join_def audio_playlist_name_def dest: toString_inj)

lemma audio_loop_keeps:
  "\<forall>b \<in> set as. path_join outputDir (audio_playlist_name b) = p \<longrightarrow> join_nl (audio_m3u8 ci b) = c
     \<Longrightarrow> s p = Some (File c)
     \<Longrightarrow> generatePreGeneratedM3U8Audio_loop outputDir ci as s p = Some (File c)"
proof (induction as arbitrary: s)
  case Nil
  then show ?case by simp
next
  case (Cons b bs)
  let ?s' = "writeFile s (path_join outputDir (audio_playlist_name b)) (join_nl (audio_m3u8 ci b))"
  have "?s' p = Some (File c)"
  proof (cases "path_join outputDir (audio_playlist_name b) = p")
    case True
    then have "join_nl (audio_m3u8 ci b) = c" using Cons.prems(1) by simp
    then show ?thesis using True unfolding writeFile_def by simp
  next
    case False
    then show ?thesis using Cons.prems(2) unfolding writeFile_def by simp
  qed
  moreover have "\<forall>x \<in> set bs. path_join outputDir (audio_playlist_name x) = p
                    \<longrightarrow> join_nl (audio_m3u8 ci x) = c"
    using Cons.prems(1) by simp
  ultimately have "generatePreGeneratedM3U8Audio_loop outputDir ci bs ?s' p = Some (File c)"
    by (rule Cons.IH [rotated])
  then show ?case by simp
qed

lemma audio_loop_writes:
  "a \<in> set as \<Longrightarrow>
     generatePreGeneratedM3U8Audio_loop outputDir ci as s (path_join outputDir (audio_playlist_name a))
       = Some (File (join_nl (audio_m3u8 ci a)))"
proof (induction as arbitrary: s)
  case Nil
  then show ?case by simp
next
  case (Cons b bs)
  show ?case
  proof (cases "a \<in> set bs")
    case True
    then show ?thesis using Cons.IH by simp
  next
    case False
    then have ab: "a = b" using Cons.prems by simp
    have same: "\<forall>x \<in> set bs. path_join outputDir (audio_playlist_name x)
                    = path_join outputDir (audio_playlist_name a)
                  \<longrightarrow> join_nl (audio_m3u8 ci x) = join_nl (audio_m3u8 ci a)"
    proof (intro ballI impI)
      fix x
      assume "path_join outputDir (audio_playlist_name x)
                = path_join outputDir (audio_playlist_name a)"
      then have "audio_index x = audio_index a" by (rule audio_playlist_name_inj)
      then show "join_nl (audio_m3u8 ci x) = join_nl (audio_m3u8 ci a)"
        by (simp add: audio_m3u8_def)
    qed
    show ?thesis
      unfolding ab [symmetric] generatePreGeneratedM3U8Audio_loop.simps
      by (rule audio_loop_keeps [OF same]) (simp add: writeFile_def)
  qed
qed

lemma audio_playlist_written:
  "a \<in> set (audioStreams ci) \<Longrightarrow>
     playlist_at (generatePreGeneratedM3U8Audio outputDir ci s)
         (path_join outputDir (audio_playlist_name a))
       = placeholder_playlist (audio_segment_name (audio_index a)) (nat \<lceil>duration ci / 10\<rceil>)"
  by (simp add: playlist_at_def generatePreGeneratedM3U8Audio_def audio_loop_writes audio_m3u8_eq
      split_join_placeholder nl_notin_audio_segment_name)

section \<open>Segment counts of the placeholder playlists\<close>

text \<open>
  Claim C2. The video playlist that the planner writes, and the playlist it writes for
  each audio stream of the codec information, is the placeholder playlist of the
  specification with \<open>\<lceil>D / 10\<rceil>\<close> segments, \<open>D\<close> being the duration: after
  the header, one \<open>#EXTINF\<close> line and one file-name line per segment, then
  \<open>#EXT-X-ENDLIST\<close>. A player reads exactly that many segment entries from it (none
  when the duration is negative). The duration is read as a real number and the division
  is exact.
\<close>

theorem placeholder_playlists_segment_count:
  "playlist_at (generatePreGeneratedM3U8Video outputDir ci s) (path_join outputDir ''video.m3u8'')
     = placeholder_playlist video_segment_name (nat \<lceil>duration ci / 10\<rceil>)
   \<and> int (length (segment_entries
          (playlist_at (generatePreGeneratedM3U8Video outputDir ci s)
             (path_join outputDir ''video.m3u8''))))
       = max 0 \<lceil>duration ci / 10\<rceil>
   \<and> (\<forall>a \<in> set (audioStreams ci).
         playlist_at (generatePreGeneratedM3U8Audio outputDir ci s)
             (path_join outputDir (audio_playlist_name a))
           = placeholder_playlist (audio_segment_name (audio_index a)) (nat \<lceil>duration ci / 10\<rceil>)
         \<and> int (length (segment_entries
                (playlist_at (generatePreGeneratedM3U8Audio outputDir ci s)
                   (path_join outputDir (audio_playlist_name a)))))
             = max 0 \<lceil>duration ci / 10\<rceil>)"
  by (simp add: video_playlist_written audio_playlist_written segment_entries_placeholder)

theorem placeholder_playlists_of_25_seconds:
  "playlist_at (generatePreGeneratedM3U8Video ''/addon/hls/abc/0'' example_codecInfo Map.empty)
       ''/addon/hls/abc/0/video.m3u8''
     = [''#EXTM3U'', ''#EXT-X-VERSION:3'', ''#EXT-X-TARGETDURATION:10'', ''#EXT-X-MEDIA-SEQUENCE:0'',
        ''#EXTINF:10,'', ''segment_000.ts'', ''#EXTINF:10,'', ''segment_001.ts'',
        ''#EXTINF:10,'', ''segment_002.ts'', ''#EXT-X-ENDLIST'']
   \<and> example_audio \<in> set (audioStreams example_codecInfo)
   \<and> playlist_at (generatePreGeneratedM3U8Audio ''/addon/hls/abc/0'' example_codecInfo Map.empty)
       ''/addon/hls/abc/0/audio_1.m3u8''
     = [''#EXTM3U'', ''#EXT-X-VERSION:3'', ''#EXT-X-TARGETDURATION:10'', ''#EXT-X-MEDIA-SEQUENCE:0'',
        ''#EXTINF:10,'', ''audio_1_000.ts'', ''#EXTINF:10,'', ''audio_1_001.ts'',
        ''#EXTINF:10,'', ''audio_1_002.ts'', ''#EXT-X-ENDLIST'']"
proof -
  have m: "example_audio \<in> set (audioStreams example_codecInfo)"
    by (simp add: example_audio_def example_codecInfo_def)
  have n: "nat \<lceil>duration example_codecInfo / 10\<rceil> = 3"
    by (simp add: example_codecInfo_def)
  have u: "[0..<3] = [0, 1, 2]"
    by (simp add: upt_rec)
  note t = placeholder_playlists_segment_count [of "''/addon/hls/abc/0''" example_codecInfo Map.empty]
  have v: "playlist_at (generatePreGeneratedM3U8Video ''/addon/hls/abc/0'' example_codecInfo Map.empty)
       (path_join ''/addon/hls/abc/0'' ''video.m3u8'')
     = placeholder_playlist video_segment_name 3"
    using t n by simp
  have a: "playlist_at (generatePreGeneratedM3U8Audio ''/addon/hls/abc/0'' example_codecInfo Map.empty)
       (path_join ''/addon/hls/abc/0'' (audio_playlist_name example_audio))
     = placeholder_playlist (audio_segment_name (audio_index example_audio)) 3"
    using t m n by simp
  have p: "path_join ''/addon/hls/abc/0'' (audio_playlist_name example_audio) = ''/addon/hls/abc/0/audio_1.m3u8''"
    by (simp add: path_join_def audio_playlist_name_def example_audio_def toString.simps digit_char_def)
  show ?thesis
    using v a m unfolding p
    by (simp add: path_join_def placeholder_playlist_def u video_segment_name_def
        audio_segment_name_def example_audio_def padStart_def toString.simps digit_char_def
        numeral_2_eq_2)
qed

section \<open>Facts about the encoder's file names\<close>

lemma zero_pad_padStart: "zero_pad w s = padStart w CHR ''0'' s"
proof (induction w s rule: zero_pad.induct)
  case (1 w s)
  show ?case
  proof (cases "length s < w")
    case True
    then have "zero_pad w s = padStart w CHR ''0'' (CHR ''0'' # s)"
      using 1 by (subst zero_pad.simps) simp
    also have "\<dots> = replicate (w - Suc (length s)) CHR ''0'' @ [CHR ''0''] @ s"
      by (simp add: padStart_def)
    also have "\<dots> = replicate (Suc (w - Suc (length s))) CHR ''0'' @ s"
      by (simp add: replicate_append_same)
    also have "\<dots> = padStart w CHR ''0'' s"
      using True by (simp add: padStart_def Suc_diff_Suc)
    finally show ?thesis .
  next
    case False
    then show ?thesis by (subst zero_pad.simps) (simp add: padStart_def)
  qed
qed



lemma render_Number: "render [Number w] n = padStart w CHR ''0'' (toString n)"
  by (simp add: render_def zero_pad_padStart)

lemma has_number_append: "has_number (ps @ qs) = (has_number ps \<or> has_number qs)"
  by (auto simp: has_number_def)

lemma has_number_Lit: "\<not> has_number (map Lit x)"
  by (auto simp: has_number_def)
































section \<open>Planner and orchestrator agree on file names\<close>




section \<open>Facts about UTF-8\<close>

lemma scalar_replacement: "scalar 0xFFFD"
  by (simp add: scalar_def)

lemma continuation_range:
  "fst (continuation n lo hi cp bs) = 0xFFFD
   \<or> (cp * 64 ^ n \<le> fst (continuation n lo hi cp bs)
       \<and> fst (continuation n lo hi cp bs) < (cp + 1) * 64 ^ n)"
proof (induction n lo hi cp bs rule: continuation.induct)
  case (1 lo hi cp bs)
  show ?case by simp
next
  case (2 n lo hi cp)
  show ?case by simp
next
  case (3 n lo hi cp b bs)
  show ?case
  proof (cases "lo \<le> b \<and> b \<le> hi")
    case False
    then show ?thesis by auto
  next
    case True
    let ?r = "fst (continuation n 0x80 0xBF (cp * 64 + b mod 64) bs)"
    have e: "fst (continuation (Suc n) lo hi cp (b # bs)) = ?r" using True by simp
    from 3 [OF True] consider "?r = 0xFFFD"
      | "(cp * 64 + b mod 64) * 64 ^ n \<le> ?r" "?r < (cp * 64 + b mod 64 + 1) * 64 ^ n"
      by blast
    then show ?thesis
    proof cases
      case 1
      then show ?thesis using e by simp
    next
      case 2
      have "cp * 64 ^ Suc n = (cp * 64) * 64 ^ n" by (simp only: power_Suc mult.assoc)
      also have "\<dots> \<le> (cp * 64 + b mod 64) * 64 ^ n"
        by (rule mult_le_mono1) simp
      finally have a: "cp * 64 ^ Suc n \<le> ?r" using 2(1) by (rule le_trans)
      have "(cp * 64 + b mod 64 + 1) * 64 ^ n \<le> ((cp + 1) * 64) * 64 ^ n"
        by (rule mult_le_mono1) simp
      also have "\<dots> = (cp + 1) * 64 ^ Suc n" by (simp only: power_Suc mult.assoc)
      finally have b: "?r < (cp + 1) * 64 ^ Suc n" using 2(2) by (rule less_le_trans [rotated])
      show ?thesis unfolding e using a b by blast
    qed
  qed
qed

lemma continuation_first:
  "fst (continuation (Suc n) lo hi cp bs) = 0xFFFD
   \<or> (\<exists>b. lo \<le> b \<and> b \<le> hi
        \<and> (cp * 64 + b mod 64) * 64 ^ n \<le> fst (continuation (Suc n) lo hi cp bs)
        \<and> fst (continuation (Suc n) lo hi cp bs) < (cp * 64 + b mod 64 + 1) * 64 ^ n)"
proof (cases bs)
  case Nil
  then show ?thesis by simp
next
  case (Cons b r)
  show ?thesis
  proof (cases "lo \<le> b \<and> b \<le> hi")
    case False
    then show ?thesis using Cons by auto
  next
    case True
    then show ?thesis
      using Cons continuation_range [of n "0x80" "0xBF" "cp * 64 + b mod 64" r] by auto
  qed
qed


lemma continuation_byte_mod:
  assumes "128 \<le> b" "b \<le> 191"
  shows "(b::nat) mod 64 = b - 128"
proof -
  have "b = (b - 128) + 64 * 2" using assms by simp
  then have "b mod 64 = ((b - 128) + 64 * 2) mod 64" by (rule arg_cong)
  also have "\<dots> = (b - 128) mod 64" by (simp only: mod_mult_self2)
  also have "\<dots> = b - 128" using assms by simp
  finally show ?thesis .
qed

lemma decode_step_scalar: "scalar (fst (decode_step b bs))"
proof -
  consider "b < 0x80" | "0xC2 \<le> b \<and> b \<le> 0xDF" | "0xE0 \<le> b \<and> b \<le> 0xEF"
    | "0xF0 \<le> b \<and> b \<le> 0xF4"
    | "\<not> b < 0x80 \<and> \<not> (0xC2 \<le> b \<and> b \<le> 0xDF) \<and> \<not> (0xE0 \<le> b \<and> b \<le> 0xEF)
         \<and> \<not> (0xF0 \<le> b \<and> b \<le> 0xF4)"
    by blast
  then show ?thesis
  proof cases
    case 1
    then show ?thesis by (simp add: decode_step_def scalar_def)
  next
    case 2
    let ?r = "fst (continuation 1 0x80 0xBF (b mod 32) bs)"
    have e: "fst (decode_step b bs) = ?r" using 2 by (simp add: decode_step_def)
    have "b mod 32 < 32" by simp
    then have "?r = 0xFFFD \<or> ?r < 2048"
      using continuation_range [of 1 "0x80" "0xBF" "b mod 32" bs] by auto
    then show ?thesis unfolding e by (auto simp: scalar_def)
  next
    case 3
    let ?lo = "if b = 0xE0 then 0xA0 else (0x80::nat)"
    let ?hi = "if b = 0xED then 0x9F else (0xBF::nat)"
    let ?r = "fst (continuation (Suc 1) ?lo ?hi (b mod 16) bs)"
    have e: "fst (decode_step b bs) = ?r" using 3 by (simp add: decode_step_def numeral_2_eq_2)
    from continuation_first [of 1 ?lo ?hi "b mod 16" bs]
    consider "?r = 0xFFFD"
      | b1 where "?lo \<le> b1" "b1 \<le> ?hi" "(b mod 16 * 64 + b1 mod 64) * 64 \<le> ?r"
          "?r < (b mod 16 * 64 + b1 mod 64 + 1) * 64"
      by auto
    then show ?thesis
    proof cases
      case 1
      then show ?thesis unfolding e by (simp add: scalar_def)
    next
      case 2
      define c m where "c = b mod 16" and "m = b1 mod 64"
      have m: "m < 64" by (simp add: m_def)
      have c: "c < 16" by (simp add: c_def)
      have r: "(c * 64 + m) * 64 \<le> ?r" "?r < (c * 64 + m + 1) * 64"
        using 2(3,4) by (simp_all only: c_def m_def)
      have "?r < 0xD800 \<or> 0xDFFF < ?r \<and> ?r \<le> 0x10FFFF"
      proof (cases "b = 0xED")
        case True
        then have "b1 \<le> 0x9F" "0x80 \<le> b1" using 2(1,2) by simp_all
        then have "m < 32" unfolding m_def by (simp add: continuation_byte_mod)
        moreover have "c = 13" using True by (simp add: c_def)
        ultimately show ?thesis using r(2) by simp
      next
        case False
        then have "c \<noteq> 13" unfolding c_def using 3 by presburger
        then have "c \<le> 12 \<or> 14 \<le> c" by linarith
        then show ?thesis using r c m by auto
      qed
      then show ?thesis unfolding e by (simp add: scalar_def)
    qed
  next
    case 4
    let ?lo = "if b = 0xF0 then 0x90 else (0x80::nat)"
    let ?hi = "if b = 0xF4 then 0x8F else (0xBF::nat)"
    let ?r = "fst (continuation (Suc 2) ?lo ?hi (b mod 8) bs)"
    have e: "fst (decode_step b bs) = ?r" using 4 by (simp add: decode_step_def numeral_3_eq_3 numeral_2_eq_2)
    from continuation_first [of 2 ?lo ?hi "b mod 8" bs]
    consider "?r = 0xFFFD"
      | b1 where "?lo \<le> b1" "b1 \<le> ?hi" "(b mod 8 * 64 + b1 mod 64) * 4096 \<le> ?r"
          "?r < (b mod 8 * 64 + b1 mod 64 + 1) * 4096"
      by auto
    then show ?thesis
    proof cases
      case 1
      then show ?thesis unfolding e by (simp add: scalar_def)
    next
      case 2
      have "b mod 8 \<le> 4" using 4 by presburger
      have lo: "b mod 8 = 0 \<Longrightarrow> 16 \<le> b1 mod 64"
      proof -
        assume "b mod 8 = 0"
        then have "b = 0xF0" using 4 by presburger
        then have "0x90 \<le> b1" "b1 \<le> 0xBF" using 2(1,2) by simp_all
        then show ?thesis by (simp add: continuation_byte_mod)
      qed
      have hi: "b mod 8 = 4 \<Longrightarrow> b1 mod 64 < 16"
      proof -
        assume "b mod 8 = 4"
        then have "b = 0xF4" using 4 by presburger
        then have "0x80 \<le> b1" "b1 \<le> 0x8F" using 2(1,2) by simp_all
        then show ?thesis by (simp add: continuation_byte_mod)
      qed
      define c m where "c = b mod 8" and "m = b1 mod 64"
      have m: "m < 64" by (simp add: m_def)
      have c: "c \<le> 4" "c = 0 \<Longrightarrow> 16 \<le> m" "c = 4 \<Longrightarrow> m < 16"
        using lo hi \<open>b mod 8 \<le> 4\<close> by (simp_all add: c_def m_def)
      have r: "(c * 64 + m) * 4096 \<le> ?r" "?r < (c * 64 + m + 1) * 4096"
        using 2(3,4) by (simp_all only: c_def m_def)
      have "0xDFFF < ?r \<and> ?r \<le> 0x10FFFF"
        using r c m by (cases "c = 0"; cases "c = 4") auto
      then show ?thesis unfolding e by (simp add: scalar_def)
    qed
  next
    case 5
    then have a: "\<not> b < 0x80" "\<not> (0xC2 \<le> b \<and> b \<le> 0xDF)" "\<not> (0xE0 \<le> b \<and> b \<le> 0xEF)"
      "\<not> (0xF0 \<le> b \<and> b \<le> 0xF4)"
      by blast+
    show ?thesis unfolding decode_step_def
      by (simp only: a if_False fst_conv scalar_replacement)
  qed
qed

lemma utf8_decode_bytes_scalar: "\<forall>c \<in> set (utf8_decode_bytes bs). scalar c"
  by (induction bs rule: utf8_decode_bytes.induct) (simp_all add: decode_step_scalar)

lemma add_mod_cancel: "k mod n = 0 \<Longrightarrow> (k + x) mod n = x mod (n::nat)"
  by (metis add_cancel_right_left mod_add_left_eq)

lemma lead_mod:
  "x < 32 \<Longrightarrow> (192 + x) mod 32 = (x::nat)"
  "x < 16 \<Longrightarrow> (224 + x) mod 16 = (x::nat)"
  "x < 8 \<Longrightarrow> (240 + x) mod 8 = (x::nat)"
  "x < 64 \<Longrightarrow> (128 + x) mod 64 = (x::nat)"
  by (simp_all add: add_mod_cancel)

lemma split_4096: "(c::nat) mod 4096 = 64 * (c div 64 mod 64) + c mod 64"
  using mod_mult2_eq [of c 64 64] by simp

lemma split_262144: "(c::nat) mod 262144 = 4096 * (c div 4096 mod 64) + c mod 4096"
  using mod_mult2_eq [of c 4096 64] by simp

lemma decode_two:
  assumes "x < 32" "2 \<le> x" "y < 64"
  shows "decode_step (192 + x) ((128 + y) # bs) = (x * 64 + y, bs)"
  using assms by (simp add: decode_step_def lead_mod)

lemma decode_three:
  assumes "x < 16" "y < 64" "z < 64" "x = 0 \<Longrightarrow> 32 \<le> y" "x = 13 \<Longrightarrow> y < 32"
  shows "decode_step (224 + x) ((128 + y) # (128 + z) # bs) = ((x * 64 + y) * 64 + z, bs)"
  using assms by (auto simp: decode_step_def lead_mod numeral_2_eq_2)

lemma decode_four:
  assumes "w \<le> 4" "x < 64" "y < 64" "z < 64" "w = 0 \<Longrightarrow> 16 \<le> x" "w = 4 \<Longrightarrow> x < 16"
  shows "decode_step (240 + w) ((128 + x) # (128 + y) # (128 + z) # bs)
           = (((w * 64 + x) * 64 + y) * 64 + z, bs)"
  using assms by (auto simp: decode_step_def lead_mod numeral_2_eq_2 numeral_3_eq_3)


lemma decode_encode_cp:
  assumes "scalar c"
  shows "utf8_decode_bytes (utf8_encode_cp c @ bs) = c # utf8_decode_bytes bs"
proof -
  consider "c < 0x80" | "0x80 \<le> c" "c < 0x800" | "0x800 \<le> c" "c < 0x10000"
    | "0x10000 \<le> c"
    by linarith
  then show ?thesis
  proof cases
    case 1
    then show ?thesis by (simp add: utf8_encode_cp_def decode_step_def)
  next
    case 2
    define x y where "x = c div 64" and "y = c mod 64"
    have c: "c = x * 64 + y" by (simp add: x_def y_def)
    have b: "x < 32" "2 \<le> x" "y < 64" using 2 by (simp_all add: x_def y_def)
    have "utf8_encode_cp c = [192 + x, 128 + y]"
      using 2 by (simp add: utf8_encode_cp_def x_def y_def)
    then show ?thesis by (simp add: decode_two [OF b] c)
  next
    case 3
    define x y z where "x = c div 4096" and "y = c div 64 mod 64" and "z = c mod 64"
    have "c = 4096 * (c div 4096) + c mod 4096" by simp
    then have c: "c = (x * 64 + y) * 64 + z" by (simp add: split_4096 x_def y_def z_def)
    have b: "x < 16" "y < 64" "z < 64" using 3 by (simp_all add: x_def y_def z_def)
    have s: "c < 0xD800 \<or> 0xDFFF < c" using assms by (auto simp: scalar_def)
    have lo: "x = 0 \<Longrightarrow> 32 \<le> y" using c 3(1) b by simp
    have hi: "x = 13 \<Longrightarrow> y < 32" using c s b by auto
    have "utf8_encode_cp c = [224 + x, 128 + y, 128 + z]"
      using 3 assms by (simp add: utf8_encode_cp_def x_def y_def z_def)
    then show ?thesis by (simp add: decode_three [OF b lo hi] c)
  next
    case 4
    define w x y z where "w = c div 262144" and "x = c div 4096 mod 64"
      and "y = c div 64 mod 64" and "z = c mod 64"
    have u: "c \<le> 0x10FFFF" using assms 4 by (auto simp: scalar_def)
    have "c = 262144 * (c div 262144) + c mod 262144" by simp
    then have c: "c = ((w * 64 + x) * 64 + y) * 64 + z"
      by (simp add: split_262144 split_4096 w_def x_def y_def z_def)
    have b: "w \<le> 4" "x < 64" "y < 64" "z < 64" using u by (simp_all add: w_def x_def y_def z_def)
    have lo: "w = 0 \<Longrightarrow> 16 \<le> x" using c 4 b by simp
    have hi: "w = 4 \<Longrightarrow> x < 16" using c u b by simp
    have "utf8_encode_cp c = [240 + w, 128 + x, 128 + y, 128 + z]"
      using 4 assms by (simp add: utf8_encode_cp_def w_def x_def y_def z_def)
    then show ?thesis by (simp add: decode_four [OF b lo hi] c)
  qed
qed

lemma decode_encode_bytes:
  "\<forall>c \<in> set t. scalar c \<Longrightarrow> utf8_decode_bytes (concat (map utf8_encode_cp t)) = t"
  by (induction t) (simp_all add: decode_encode_cp)

lemma utf8_encode_cp_bytes: "\<forall>b \<in> set (utf8_encode_cp c). b < 256"
proof (cases "scalar c")
  case False
  then show ?thesis by (simp add: utf8_encode_cp_def scalar_def)
next
  case True
  then have "c div 262144 \<le> 4 \<or> c < 0x10000" by (auto simp: scalar_def)
  moreover have "c mod 64 < 64" "c div 64 mod 64 < 64" "c div 4096 mod 64 < 64" by simp_all
  moreover have "c < 0x800 \<Longrightarrow> c div 64 < 32" "c < 0x10000 \<Longrightarrow> c div 4096 < 16" by simp_all
  ultimately show ?thesis by (auto simp: utf8_encode_cp_def)
qed

lemma of_char_char_of_bytes: "\<forall>b \<in> set bs. b < 256 \<Longrightarrow> map of_char (map char_of bs) = (bs::nat list)"
  by (induction bs) simp_all

lemma utf8_decode_encode:
  assumes "\<forall>c \<in> set t. scalar c"
  shows "utf8_decode (utf8_encode t) = t"
proof -
  have "\<forall>b \<in> set (concat (map utf8_encode_cp t)). b < 256"
    using utf8_encode_cp_bytes by auto
  then show ?thesis
    unfolding utf8_decode_def utf8_encode_def
    by (simp only: of_char_char_of_bytes decode_encode_bytes [OF assms])
qed

lemma utf8_decode_scalar: "\<forall>c \<in> set (utf8_decode content). scalar c"
  unfolding utf8_decode_def by (rule utf8_decode_bytes_scalar)

section \<open>Facts about lines of text\<close>

lemma join_split_on: "join_on sep (split_on sep s) = s"
proof (induction s)
  case Nil
  show ?case by simp
next
  case (Cons c s)
  show ?case
  proof (cases "split_on sep s")
    case Nil
    then show ?thesis using Cons by simp
  next
    case (Cons l ls)
    then show ?thesis using Cons.IH by (cases ls) auto
  qed
qed

lemma split_on_not_Nil: "split_on sep s \<noteq> []"
  by (induction s) (auto split: list.splits)

lemma split_on_line: "sep \<notin> set l \<Longrightarrow> split_on sep (l @ sep # s) = l # split_on sep s"
  by (induction l) auto

lemma split_on_single: "sep \<notin> set l \<Longrightarrow> split_on sep l = [l]"
  by (induction l) auto

lemma split_join_on:
  "ls \<noteq> [] \<Longrightarrow> \<forall>l \<in> set ls. sep \<notin> set l \<Longrightarrow> split_on sep (join_on sep ls) = ls"
proof (induction sep ls rule: join_on.induct)
  case (1 sep)
  then show ?case by simp
next
  case (2 sep l)
  then show ?case by (simp add: split_on_single)
next
  case (3 sep l m ls)
  then show ?case by (simp add: split_on_line)
qed

lemma split_on_lines: "l \<in> set (split_on sep s) \<Longrightarrow> sep \<notin> set l \<and> set l \<subseteq> set s"
proof (induction s arbitrary: l)
  case Nil
  then show ?case by simp
next
  case (Cons c s)
  show ?case
  proof (cases "c = sep")
    case True
    then show ?thesis using Cons by auto
  next
    case False
    obtain m ms where sp: "split_on sep s = m # ms"
      using split_on_not_Nil [of sep s] by (cases "split_on sep s") auto
    then have "l = c # m \<or> l \<in> set ms" using Cons.prems False by simp
    moreover have "sep \<notin> set m \<and> set m \<subseteq> set s" using Cons.IH [of m] sp by simp
    moreover have "l \<in> set ms \<Longrightarrow> sep \<notin> set l \<and> set l \<subseteq> set s" using Cons.IH [of l] sp by simp
    ultimately show ?thesis using False by auto
  qed
qed

lemma join_on_set: "set (join_on sep ls) \<subseteq> insert sep (\<Union>l \<in> set ls. set l)"
  by (induction sep ls rule: join_on.induct) auto

lemma join_on_inj:
  assumes "a \<noteq> []" "b \<noteq> []"
    and "\<forall>l \<in> set a. sep \<notin> set l" "\<forall>l \<in> set b. sep \<notin> set l"
    and "join_on sep a = join_on sep b"
  shows "a = b"
proof -
  have "a = split_on sep (join_on sep a)" using assms(1,3) by (rule split_join_on [symmetric])
  also have "\<dots> = split_on sep (join_on sep b)" by (simp only: assms(5))
  also have "\<dots> = b" using assms(2,4) by (rule split_join_on)
  finally show ?thesis .
qed

lemma literal_ascii: "\<forall>c \<in> set s. of_char c < (128::nat) \<Longrightarrow> \<forall>c \<in> set (literal s). c < 128"
  by (simp add: literal_def)

lemma utf8_decode_ascii: "\<forall>c \<in> set s. of_char c < (128::nat) \<Longrightarrow> utf8_decode s = literal s"
  unfolding utf8_decode_def literal_def
  by (induction s) (simp_all add: decode_step_def)

lemma utf8_encode_literal: "\<forall>c \<in> set s. of_char c < (128::nat) \<Longrightarrow> utf8_encode (literal s) = s"
  unfolding utf8_encode_def literal_def
  by (induction s) (simp_all add: utf8_encode_cp_def)

lemma of_char_newline: "(of_char c = (10::nat)) = (c = CHR 0x0A)"
proof -
  have "of_char (CHR 0x0A) = (10::nat)" by simp
  then have "(of_char c = (10::nat)) = (of_char c = (of_char (CHR 0x0A) :: nat))" by simp
  then show ?thesis by (simp only: of_char_eq_iff)
qed

lemma split_on_literal: "split_on 10 (literal s) = map literal (split_nl s)"
  unfolding literal_def
  by (induction s) (auto simp: of_char_newline split: list.splits)

lemma join_on_literal: "join_on 10 (map literal ls) = literal (join_nl ls)"
  by (induction ls rule: join_nl.induct) (simp_all add: literal_def)

lemma literal_inj: "(literal a = literal b) = (a = b)"
  unfolding literal_def by (rule inj_map_eq_map) (rule injI, simp)

lemma startsWith_literal: "startsWith (literal l) (literal p) = startsWith l p"
proof -
  have inj: "inj (of_char :: char \<Rightarrow> nat)" by (rule injI) simp
  show ?thesis
    unfolding startsWith_def literal_def
    by (simp add: take_map inj_map_eq_map [OF inj])
qed

section \<open>Subtitle post-processing\<close>

lemma findIndex_Some_less: "findIndex P xs = Some h \<Longrightarrow> h < length xs"
  by (induction xs arbitrary: h) (auto split: if_splits)

lemma findIndex_take: "findIndex P xs = Some h \<Longrightarrow> findIndex P (take (Suc h) xs @ ys) = Some h"
  by (induction xs arbitrary: h) (auto split: if_splits)

lemma scalar_newline: "scalar 10"
  by (simp add: scalar_def)

lemma timestamp_map_ascii: "\<forall>c \<in> set timestamp_map. of_char c < (128::nat)"
  by (simp add: timestamp_map_def)

lemma directive_no_newline: "10 \<notin> set (literal timestamp_map)"
  by (simp add: literal_def timestamp_map_def)

lemma directive_scalar: "\<forall>c \<in> set (literal timestamp_map). scalar c"
  using literal_ascii [OF timestamp_map_ascii] by (auto simp: scalar_def)

lemma patch_lines_Some:
  "findIndex (\<lambda>line. startsWith line (literal ''WEBVTT'')) ls = Some h
     \<Longrightarrow> patch_lines ls = take (Suc h) ls @ literal timestamp_map # drop (Suc h) ls"
  by (simp add: patch_lines_def splice_insert_def)

lemma patch_lines_None:
  "findIndex (\<lambda>line. startsWith line (literal ''WEBVTT'')) ls = None \<Longrightarrow> patch_lines ls = ls"
  by (simp add: patch_lines_def)

lemma patch_lines_twice:
  assumes "findIndex (\<lambda>line. startsWith line (literal ''WEBVTT'')) ls = Some h"
  shows "patch_lines (patch_lines ls)
           = take (Suc h) ls @ literal timestamp_map # literal timestamp_map # drop (Suc h) ls"
proof -
  let ?ys = "literal timestamp_map # drop (Suc h) ls"
  have l: "length (take (Suc h) ls) = Suc h"
    using findIndex_Some_less [OF assms] by simp
  have f: "findIndex (\<lambda>line. startsWith line (literal ''WEBVTT'')) (take (Suc h) ls @ ?ys) = Some h"
    using assms by (rule findIndex_take)
  have "patch_lines (take (Suc h) ls @ ?ys)
          = take (Suc h) (take (Suc h) ls @ ?ys) @ literal timestamp_map
              # drop (Suc h) (take (Suc h) ls @ ?ys)"
    using f by (rule patch_lines_Some)
  also have "\<dots> = take (Suc h) ls @ literal timestamp_map # ?ys"
    using l by (simp del: take_Suc drop_Suc)
  finally show ?thesis
    by (simp only: patch_lines_Some [OF assms])
qed

lemma patch_lines_no_newline:
  "\<forall>l \<in> set ls. 10 \<notin> set l \<Longrightarrow> \<forall>l \<in> set (patch_lines ls). 10 \<notin> set l"
  by (auto simp: patch_lines_def splice_insert_def directive_no_newline
      split: option.splits dest: in_set_takeD in_set_dropD)

lemma patch_lines_scalar:
  "\<forall>l \<in> set ls. \<forall>c \<in> set l. scalar c \<Longrightarrow> \<forall>l \<in> set (patch_lines ls). \<forall>c \<in> set l. scalar c"
  using directive_scalar
  by (auto simp: patch_lines_def splice_insert_def
      split: option.splits dest: in_set_takeD in_set_dropD)

lemma patch_lines_not_Nil: "ls \<noteq> [] \<Longrightarrow> patch_lines ls \<noteq> []"
  by (auto simp: patch_lines_def splice_insert_def split: option.splits)

lemma join_on_scalar:
  assumes "\<forall>l \<in> set ls. \<forall>c \<in> set l. scalar c"
  shows "\<forall>c \<in> set (join_on 10 ls). scalar c"
proof
  fix c
  assume "c \<in> set (join_on 10 ls)"
  then have "c = 10 \<or> (\<exists>l \<in> set ls. c \<in> set l)"
    using join_on_set [of 10 ls] by auto
  then show "scalar c" using assms scalar_newline by auto
qed

lemma decoded_lines:
  "\<forall>l \<in> set (split_on 10 (utf8_decode content)). 10 \<notin> set l"
  "\<forall>l \<in> set (split_on 10 (utf8_decode content)). \<forall>c \<in> set l. scalar c"
  using split_on_lines [of _ 10 "utf8_decode content"] utf8_decode_scalar [of content]
  by blast+

text \<open>What is read back from a file written as lines of scalar values.\<close>

lemma read_back_lines:
  assumes "ls \<noteq> []" "\<forall>l \<in> set ls. 10 \<notin> set l" "\<forall>l \<in> set ls. \<forall>c \<in> set l. scalar c"
  shows "split_on 10 (utf8_decode (utf8_encode (join_on 10 ls))) = ls"
  by (simp only: utf8_decode_encode [OF join_on_scalar [OF assms(3)]] split_join_on [OF assms(1,2)])

lemma read_back_patched:
  "split_on 10 (utf8_decode (utf8_encode (join_on 10 (patch_lines (split_on 10 (utf8_decode content))))))
     = patch_lines (split_on 10 (utf8_decode content))"
proof (rule read_back_lines)
  show "patch_lines (split_on 10 (utf8_decode content)) \<noteq> []"
    by (rule patch_lines_not_Nil) (rule split_on_not_Nil)
  show "\<forall>l \<in> set (patch_lines (split_on 10 (utf8_decode content))). 10 \<notin> set l"
    by (rule patch_lines_no_newline) (rule decoded_lines)
  show "\<forall>l \<in> set (patch_lines (split_on 10 (utf8_decode content))). \<forall>c \<in> set l. scalar c"
    by (rule patch_lines_scalar) (rule decoded_lines)
qed

lemma encoded_lines_differ:
  assumes "a \<noteq> []" "b \<noteq> []"
    and "\<forall>l \<in> set a. 10 \<notin> set l" "\<forall>l \<in> set b. 10 \<notin> set l"
    and "\<forall>l \<in> set a. \<forall>c \<in> set l. scalar c" "\<forall>l \<in> set b. \<forall>c \<in> set l. scalar c"
    and "a \<noteq> b"
  shows "utf8_encode (join_on 10 a) \<noteq> utf8_encode (join_on 10 b)"
proof
  assume "utf8_encode (join_on 10 a) = utf8_encode (join_on 10 b)"
  then have "split_on 10 (utf8_decode (utf8_encode (join_on 10 a)))
           = split_on 10 (utf8_decode (utf8_encode (join_on 10 b)))"
    by simp
  then have "a = b"
    by (simp only: read_back_lines [OF assms(1,3,5)] read_back_lines [OF assms(2,4,6)])
  then show False using assms(7) by simp
qed

lemma readFile_writeFile: "readFile (writeFile s p c) p = Inr c"
  by (simp add: readFile_def writeFile_def)

lemma readFile_Inr: "readFile s p = Inr c \<Longrightarrow> s p = Some (File c)"
  by (auto simp: readFile_def split: option.splits node.splits)

lemma patchVtt_reads:
  "readFile s p = Inr content \<Longrightarrow>
     patchVttWithTimestampMap None p (s, console)
       = (Inr (),
          writeFile s p (utf8_encode (join_on 10 (patch_lines (split_on 10 (utf8_decode content))))),
          console)"
  by (simp add: patchVttWithTimestampMap_def patchVtt_try_def)

lemma patchVtt_twice:
  assumes "readFile s p = Inr content"
  shows "patchVttWithTimestampMap None p (snd (patchVttWithTimestampMap None p (s, console)))
       = (Inr (),
          writeFile
            (writeFile s p (utf8_encode (join_on 10 (patch_lines (split_on 10 (utf8_decode content))))))
            p (utf8_encode (join_on 10 (patch_lines (patch_lines (split_on 10 (utf8_decode content)))))),
          console)"
proof -
  let ?c = "utf8_encode (join_on 10 (patch_lines (split_on 10 (utf8_decode content))))"
  have "readFile (writeFile s p ?c) p = Inr ?c"
    by (rule readFile_writeFile)
  then have "patchVttWithTimestampMap None p (writeFile s p ?c, console)
       = (Inr (),
          writeFile (writeFile s p ?c) p
            (utf8_encode (join_on 10 (patch_lines (split_on 10 (utf8_decode ?c))))),
          console)"
    by (rule patchVtt_reads)
  then show ?thesis
    by (simp add: patchVtt_reads [OF assms] read_back_patched)
qed

lemma patchVtt_write_rejected:
  "readFile s p = Inr content \<Longrightarrow>
     patchVttWithTimestampMap (Some (err, s')) p (s, console)
       = (Inr (), s', console @ [''[Subtitle Timestamp Patch Error]''])"
  by (simp add: patchVttWithTimestampMap_def patchVtt_try_def)

lemma patchVtt_read_rejected:
  "readFile s p = Inl err \<Longrightarrow>
     patchVttWithTimestampMap rejection p (s, console)
       = (Inr (), s, console @ [''[Subtitle Timestamp Patch Error]''])"
  by (simp add: patchVttWithTimestampMap_def patchVtt_try_def)

lemma ex_vtt_lines: "split_nl example_vtt = [''WEBVTT'', [], ''00:00:01.000 --> 00:00:02.000'', ''Hello'']"
  unfolding example_vtt_def by (rule split_join_nl) simp_all

lemma ex_srt_lines: "split_nl example_srt = [''1'', ''00:00:01,000 --> 00:00:02,000'', ''Hello'']"
  unfolding example_srt_def by (rule split_join_nl) simp_all

lemma ex_vtt_ascii: "\<forall>c \<in> set example_vtt. of_char c < (128::nat)"
  by (simp add: example_vtt_def)

lemma ex_srt_ascii: "\<forall>c \<in> set example_srt. of_char c < (128::nat)"
  by (simp add: example_srt_def)

lemma ex_vtt_text: "split_on 10 (utf8_decode example_vtt)
    = map literal [''WEBVTT'', [], ''00:00:01.000 --> 00:00:02.000'', ''Hello'']"
  by (simp only: utf8_decode_ascii [OF ex_vtt_ascii] split_on_literal ex_vtt_lines)

lemma ex_srt_text: "split_on 10 (utf8_decode example_srt)
    = map literal [''1'', ''00:00:01,000 --> 00:00:02,000'', ''Hello'']"
  by (simp only: utf8_decode_ascii [OF ex_srt_ascii] split_on_literal ex_srt_lines)

lemma join_nl_ascii:
  "\<forall>l \<in> set ls. \<forall>c \<in> set l. of_char c < (128::nat) \<Longrightarrow> \<forall>c \<in> set (join_nl ls). of_char c < (128::nat)"
  by (induction ls rule: join_nl.induct) auto

lemma encode_ascii_lines:
  assumes "\<forall>l \<in> set ls. \<forall>c \<in> set l. of_char c < (128::nat)"
  shows "utf8_encode (join_on 10 (map literal ls)) = join_nl ls"
  by (simp only: join_on_literal utf8_encode_literal [OF join_nl_ascii [OF assms]])

lemma findIndex_literal:
  "findIndex (\<lambda>line. startsWith line (literal p)) (map literal ls)
     = findIndex (\<lambda>line. startsWith line p) ls"
  by (induction ls) (simp_all add: startsWith_literal)

lemma ex_vtt_header: "findIndex (\<lambda>line. startsWith line (literal ''WEBVTT'')) (split_on 10 (utf8_decode example_vtt)) = Some 0"
  by (simp only: ex_vtt_text findIndex_literal) (simp add: startsWith_def)

lemma ex_srt_no_header: "findIndex (\<lambda>line. startsWith line (literal ''WEBVTT'')) (split_on 10 (utf8_decode example_srt)) = None"
  by (simp only: ex_srt_text findIndex_literal) (simp add: startsWith_def)

lemma ex_vtt_once:
  "utf8_encode (join_on 10 (patch_lines (split_on 10 (utf8_decode example_vtt))))
     = join_nl [''WEBVTT'', timestamp_map, [], ''00:00:01.000 --> 00:00:02.000'', ''Hello'']"
proof -
  have "patch_lines (split_on 10 (utf8_decode example_vtt))
          = map literal [''WEBVTT'', timestamp_map, [], ''00:00:01.000 --> 00:00:02.000'', ''Hello'']"
    by (simp only: patch_lines_Some [OF ex_vtt_header]) (simp add: ex_vtt_text)
  moreover have "\<forall>l \<in> set [''WEBVTT'', timestamp_map, [], ''00:00:01.000 --> 00:00:02.000'', ''Hello''].
                   \<forall>c \<in> set l. of_char c < (128::nat)"
    using timestamp_map_ascii by simp
  ultimately show ?thesis by (simp only: encode_ascii_lines)
qed

lemma ex_vtt_twice:
  "utf8_encode (join_on 10 (patch_lines (patch_lines (split_on 10 (utf8_decode example_vtt)))))
     = join_nl [''WEBVTT'', timestamp_map, timestamp_map, [], ''00:00:01.000 --> 00:00:02.000'', ''Hello'']"
proof -
  have "patch_lines (patch_lines (split_on 10 (utf8_decode example_vtt)))
          = map literal [''WEBVTT'', timestamp_map, timestamp_map, [], ''00:00:01.000 --> 00:00:02.000'', ''Hello'']"
    by (simp only: patch_lines_twice [OF ex_vtt_header]) (simp add: ex_vtt_text)
  moreover have "\<forall>l \<in> set [''WEBVTT'', timestamp_map, timestamp_map, [], ''00:00:01.000 --> 00:00:02.000'', ''Hello''].
                   \<forall>c \<in> set l. of_char c < (128::nat)"
    using timestamp_map_ascii by simp
  ultimately show ?thesis by (simp only: encode_ascii_lines)
qed

lemma ex_latin1_text: "utf8_decode example_latin1 = [0x63, 0x61, 0x66, 0xFFFD, 0x0A, 0x78]"
  by (simp add: utf8_decode_def example_latin1_def decode_step_def numeral_2_eq_2)

lemma ex_latin1_lines: "split_on 10 (utf8_decode example_latin1) = [[0x63, 0x61, 0x66, 0xFFFD], [0x78]]"
  by (simp add: ex_latin1_text)

lemma ex_latin1_no_header:
  "findIndex (\<lambda>line. startsWith line (literal ''WEBVTT'')) (split_on 10 (utf8_decode example_latin1)) = None"
  by (simp add: ex_latin1_lines startsWith_def literal_def)

lemma ex_latin1_rewritten:
  "utf8_encode (utf8_decode example_latin1)
     = [CHR 0x63, CHR 0x61, CHR 0x66, CHR 0xEF, CHR 0xBF, CHR 0xBD, CHR 0x0A, CHR 0x78]"
  by (simp add: ex_latin1_text utf8_encode_def utf8_encode_cp_def scalar_def char_of_def bit_0)

lemma patchVtt_no_header:
  assumes "readFile s p = Inr content"
    and "findIndex (\<lambda>line. startsWith line (literal ''WEBVTT'')) (split_on 10 (utf8_decode content)) = None"
  shows "patchVttWithTimestampMap None p (s, console)
           = (Inr (), s(p \<mapsto> File (utf8_encode (utf8_decode content))), console)"
  by (simp add: patchVtt_reads [OF assms(1)] patch_lines_None [OF assms(2)] join_split_on
      writeFile_def)

lemma ex_srt_well_formed: "list_all scalar (literal example_srt) \<and> example_srt = utf8_encode (literal example_srt)"
  using literal_ascii [OF ex_srt_ascii] utf8_encode_literal [OF ex_srt_ascii]
  by (auto simp: list_all_iff scalar_def)

text \<open>
  Claim C5, as the code has it. The patch is not idempotent. Take a subtitle file whose
  text has a line starting with \<open>WEBVTT\<close>, \<open>h\<close> being the index of the first
  such line, and let both writes succeed. One application inserts the
  \<open>X-TIMESTAMP-MAP\<close> directive as the line after line \<open>h\<close>; a second
  application inserts a second directive at the same place, so the file after two
  applications differs from the file after one.
\<close>

theorem patch_inserts_directive_each_time:
  assumes "readFile s p = Inr content"
    and "findIndex (\<lambda>line. startsWith line (literal ''WEBVTT'')) (split_on 10 (utf8_decode content))
           = Some h"
  shows "readFile (fst (snd (patchVttWithTimestampMap None p (s, console)))) p
           = Inr (utf8_encode (join_on 10
               (take (Suc h) (split_on 10 (utf8_decode content)) @ literal timestamp_map
                  # drop (Suc h) (split_on 10 (utf8_decode content)))))
    \<and> readFile (fst (snd (patchVttWithTimestampMap None p
                              (snd (patchVttWithTimestampMap None p (s, console)))))) p
           = Inr (utf8_encode (join_on 10
               (take (Suc h) (split_on 10 (utf8_decode content)) @ literal timestamp_map
                  # literal timestamp_map # drop (Suc h) (split_on 10 (utf8_decode content)))))
    \<and> readFile (fst (snd (patchVttWithTimestampMap None p
                              (snd (patchVttWithTimestampMap None p (s, console)))))) p
         \<noteq> readFile (fst (snd (patchVttWithTimestampMap None p (s, console)))) p"
proof -
  let ?ls = "split_on 10 (utf8_decode content)"
  let ?once = "take (Suc h) ?ls @ literal timestamp_map # drop (Suc h) ?ls"
  let ?twice = "take (Suc h) ?ls @ literal timestamp_map # literal timestamp_map # drop (Suc h) ?ls"
  have o: "readFile (fst (snd (patchVttWithTimestampMap None p (s, console)))) p
             = Inr (utf8_encode (join_on 10 ?once))"
    by (simp add: patchVtt_reads [OF assms(1)] readFile_writeFile patch_lines_Some [OF assms(2)])
  have t: "readFile (fst (snd (patchVttWithTimestampMap None p
                                 (snd (patchVttWithTimestampMap None p (s, console)))))) p
             = Inr (utf8_encode (join_on 10 ?twice))"
    by (simp add: patchVtt_twice [OF assms(1)] readFile_writeFile patch_lines_twice [OF assms(2)])
  have "utf8_encode (join_on 10 ?twice) \<noteq> utf8_encode (join_on 10 ?once)"
  proof (rule encoded_lines_differ)
    show "?twice \<noteq> []" by simp
    show "?once \<noteq> []" by simp
    show "\<forall>l \<in> set ?twice. 10 \<notin> set l"
      using decoded_lines(1) [of content]
      by (auto simp: directive_no_newline dest: in_set_takeD in_set_dropD)
    show "\<forall>l \<in> set ?once. 10 \<notin> set l"
      using decoded_lines(1) [of content]
      by (auto simp: directive_no_newline dest: in_set_takeD in_set_dropD)
    show "\<forall>l \<in> set ?twice. \<forall>c \<in> set l. scalar c"
      using decoded_lines(2) [of content] directive_scalar
      by (auto dest: in_set_takeD in_set_dropD)
    show "\<forall>l \<in> set ?once. \<forall>c \<in> set l. scalar c"
      using decoded_lines(2) [of content] directive_scalar
      by (auto dest: in_set_takeD in_set_dropD)
    show "?twice \<noteq> ?once"
    proof
      assume "?twice = ?once"
      then have "length ?twice = length ?once" by (rule arg_cong)
      then show False by simp
    qed
  qed
  then show ?thesis using o t by simp
qed

theorem patch_inserts_directive_example:
  "readFile [''/s.vtt'' \<mapsto> File example_vtt] ''/s.vtt'' = Inr example_vtt
   \<and> findIndex (\<lambda>line. startsWith line (literal ''WEBVTT'')) (split_on 10 (utf8_decode example_vtt)) = Some 0
   \<and> readFile (fst (snd (patchVttWithTimestampMap None ''/s.vtt''
         (snd (patchVttWithTimestampMap None ''/s.vtt'' ([''/s.vtt'' \<mapsto> File example_vtt], [])))))) ''/s.vtt''
       = Inr (join_nl [''WEBVTT'', timestamp_map, timestamp_map, [], ''00:00:01.000 --> 00:00:02.000'', ''Hello''])"
proof -
  have r: "readFile [''/s.vtt'' \<mapsto> File example_vtt] ''/s.vtt'' = Inr example_vtt"
    by (simp add: readFile_def)
  have e: "take (Suc 0) (split_on 10 (utf8_decode example_vtt)) @ literal timestamp_map
             # literal timestamp_map # drop (Suc 0) (split_on 10 (utf8_decode example_vtt))
           = patch_lines (patch_lines (split_on 10 (utf8_decode example_vtt)))"
    by (simp only: patch_lines_twice [OF ex_vtt_header])
  show ?thesis
    using patch_inserts_directive_each_time [OF r ex_vtt_header, of "[]"] r ex_vtt_header
    by (simp only: e ex_vtt_twice)
qed

text \<open>
  Claim C5 as stated fails: on a file whose first line is \<open>WEBVTT\<close>, the second
  application leaves two directives where the first left one.
\<close>

theorem patch_twice_adds_second_directive:
  "readFile (fst (snd (patchVttWithTimestampMap None ''/addon/hls/abc/0/subtitles_0.vtt''
       ([''/addon/hls/abc/0/subtitles_0.vtt'' \<mapsto> File example_vtt], [])))) ''/addon/hls/abc/0/subtitles_0.vtt''
     = Inr (join_nl [''WEBVTT'', timestamp_map, [], ''00:00:01.000 --> 00:00:02.000'', ''Hello''])
   \<and> readFile (fst (snd (patchVttWithTimestampMap None ''/addon/hls/abc/0/subtitles_0.vtt''
         (snd (patchVttWithTimestampMap None ''/addon/hls/abc/0/subtitles_0.vtt''
            ([''/addon/hls/abc/0/subtitles_0.vtt'' \<mapsto> File example_vtt], [])))))) ''/addon/hls/abc/0/subtitles_0.vtt''
     = Inr (join_nl [''WEBVTT'', timestamp_map, timestamp_map, [], ''00:00:01.000 --> 00:00:02.000'', ''Hello''])
   \<and> readFile (fst (snd (patchVttWithTimestampMap None ''/addon/hls/abc/0/subtitles_0.vtt''
         (snd (patchVttWithTimestampMap None ''/addon/hls/abc/0/subtitles_0.vtt''
            ([''/addon/hls/abc/0/subtitles_0.vtt'' \<mapsto> File example_vtt], [])))))) ''/addon/hls/abc/0/subtitles_0.vtt''
     \<noteq> readFile (fst (snd (patchVttWithTimestampMap None ''/addon/hls/abc/0/subtitles_0.vtt''
       ([''/addon/hls/abc/0/subtitles_0.vtt'' \<mapsto> File example_vtt], [])))) ''/addon/hls/abc/0/subtitles_0.vtt''"
proof -
  let ?p = "''/addon/hls/abc/0/subtitles_0.vtt''"
  let ?s = "[?p \<mapsto> File example_vtt]"
  have r: "readFile ?s ?p = Inr example_vtt" by (simp add: readFile_def)
  have o: "readFile (fst (snd (patchVttWithTimestampMap None ?p (?s, [])))) ?p
     = Inr (join_nl [''WEBVTT'', timestamp_map, [], ''00:00:01.000 --> 00:00:02.000'', ''Hello''])"
    by (simp only: patchVtt_reads [OF r] fst_conv snd_conv readFile_writeFile ex_vtt_once)
  have t: "readFile (fst (snd (patchVttWithTimestampMap None ?p (snd (patchVttWithTimestampMap None ?p (?s, [])))))) ?p
     = Inr (join_nl [''WEBVTT'', timestamp_map, timestamp_map, [], ''00:00:01.000 --> 00:00:02.000'', ''Hello''])"
    by (simp only: patchVtt_twice [OF r] fst_conv snd_conv readFile_writeFile ex_vtt_twice)
  have "join_nl [''WEBVTT'', timestamp_map, timestamp_map, [], ''00:00:01.000 --> 00:00:02.000'', ''Hello'']
          \<noteq> join_nl [''WEBVTT'', timestamp_map, [], ''00:00:01.000 --> 00:00:02.000'', ''Hello'']"
    by (simp add: timestamp_map_def)
  then show ?thesis unfolding o t by simp
qed

text \<open>
  Claim C8, as the code has it. On a subtitle file whose text has no line starting with
  \<open>WEBVTT\<close>, when the write succeeds, the patch writes the file again with its
  text encoded anew, prints nothing to the console and returns normally; for a file
  that is the UTF-8 encoding of a text the file system is left as it was. When the
  write is rejected the console gets a line and the operation returns normally; so it
  does when the file cannot be read, and then the file system is left as it was.
\<close>

theorem patch_without_header_rewrites_silently:
  "(readFile s p = Inr content
      \<and> findIndex (\<lambda>line. startsWith line (literal ''WEBVTT'')) (split_on 10 (utf8_decode content)) = None
     \<longrightarrow> patchVttWithTimestampMap None p (s, console)
           = (Inr (), s(p \<mapsto> File (utf8_encode (utf8_decode content))), console)
         \<and> (list_all scalar t \<and> content = utf8_encode t
             \<longrightarrow> patchVttWithTimestampMap None p (s, console) = (Inr (), s, console)))
   \<and> (readFile s p = Inr content
     \<longrightarrow> patchVttWithTimestampMap (Some (err, s')) p (s, console)
           = (Inr (), s', console @ [''[Subtitle Timestamp Patch Error]'']))
   \<and> (readFile s p = Inl err
     \<longrightarrow> patchVttWithTimestampMap rejection p (s, console)
           = (Inr (), s, console @ [''[Subtitle Timestamp Patch Error]'']))"
proof (intro conjI impI)
  assume a: "readFile s p = Inr content
      \<and> findIndex (\<lambda>line. startsWith line (literal ''WEBVTT'')) (split_on 10 (utf8_decode content)) = None"
  then show r: "patchVttWithTimestampMap None p (s, console)
           = (Inr (), s(p \<mapsto> File (utf8_encode (utf8_decode content))), console)"
    by (simp add: patchVtt_no_header)
  assume w: "list_all scalar t \<and> content = utf8_encode t"
  then have "utf8_decode content = t" by (simp add: utf8_decode_encode list_all_iff)
  then have "utf8_encode (utf8_decode content) = content" using w by simp
  moreover have "s p = Some (File content)" using a by (simp add: readFile_Inr)
  ultimately have "s(p \<mapsto> File (utf8_encode (utf8_decode content))) = s"
    by (simp add: map_upd_triv)
  then show "patchVttWithTimestampMap None p (s, console) = (Inr (), s, console)"
    using r by simp
next
  assume "readFile s p = Inr content"
  then show "patchVttWithTimestampMap (Some (err, s')) p (s, console)
           = (Inr (), s', console @ [''[Subtitle Timestamp Patch Error]''])"
    by (rule patchVtt_write_rejected)
next
  assume "readFile s p = Inl err"
  then show "patchVttWithTimestampMap rejection p (s, console)
           = (Inr (), s, console @ [''[Subtitle Timestamp Patch Error]''])"
    by (rule patchVtt_read_rejected)
qed

theorem patch_without_header_example:
  "readFile [''/s.vtt'' \<mapsto> File example_srt] ''/s.vtt'' = Inr example_srt
   \<and> findIndex (\<lambda>line. startsWith line (literal ''WEBVTT'')) (split_on 10 (utf8_decode example_srt)) = None
   \<and> list_all scalar (literal example_srt)
   \<and> example_srt = utf8_encode (literal example_srt)
   \<and> patchVttWithTimestampMap None ''/s.vtt'' ([''/s.vtt'' \<mapsto> File example_srt], [''earlier''])
       = (Inr (), [''/s.vtt'' \<mapsto> File example_srt], [''earlier''])
   \<and> readFile [''/s.vtt'' \<mapsto> File example_latin1] ''/s.vtt'' = Inr example_latin1
   \<and> findIndex (\<lambda>line. startsWith line (literal ''WEBVTT'')) (split_on 10 (utf8_decode example_latin1)) = None
   \<and> patchVttWithTimestampMap None ''/s.vtt'' ([''/s.vtt'' \<mapsto> File example_latin1], [''earlier''])
       = (Inr (),
          [''/s.vtt'' \<mapsto> File [CHR 0x63, CHR 0x61, CHR 0x66, CHR 0xEF, CHR 0xBF, CHR 0xBD, CHR 0x0A, CHR 0x78]],
          [''earlier''])
   \<and> patchVttWithTimestampMap (Some (FsError ''/s.vtt'', Map.empty)) ''/s.vtt''
         ([''/s.vtt'' \<mapsto> File example_srt], [''earlier''])
       = (Inr (), Map.empty, [''earlier'', ''[Subtitle Timestamp Patch Error]''])
   \<and> readFile Map.empty ''/s.vtt'' = Inl (FsError ''/s.vtt'')
   \<and> patchVttWithTimestampMap None ''/s.vtt'' (Map.empty, [''earlier''])
       = (Inr (), Map.empty, [''earlier'', ''[Subtitle Timestamp Patch Error]''])"
proof -
  have r: "readFile [''/s.vtt'' \<mapsto> File example_srt] ''/s.vtt'' = Inr example_srt"
    by (simp add: readFile_def)
  have l: "readFile [''/s.vtt'' \<mapsto> File example_latin1] ''/s.vtt'' = Inr example_latin1"
    by (simp add: readFile_def)
  have e: "readFile Map.empty ''/s.vtt'' = Inl (FsError ''/s.vtt'')"
    by (simp add: readFile_def)
  note t1 = patch_without_header_rewrites_silently
              [of "[''/s.vtt'' \<mapsto> File example_srt]" "''/s.vtt''" example_srt "[''earlier'']"
                  "literal example_srt" "FsError ''/s.vtt''" Map.empty]
  note t2 = patch_without_header_rewrites_silently
              [of "[''/s.vtt'' \<mapsto> File example_latin1]" "''/s.vtt''" example_latin1 "[''earlier'']"]
  note t3 = patch_without_header_rewrites_silently
              [of Map.empty "''/s.vtt''" _ "[''earlier'']" _ "FsError ''/s.vtt''" _ None]
  have a: "patchVttWithTimestampMap None ''/s.vtt'' ([''/s.vtt'' \<mapsto> File example_srt], [''earlier''])
       = (Inr (), [''/s.vtt'' \<mapsto> File example_srt], [''earlier''])"
    using t1 r ex_srt_no_header ex_srt_well_formed by blast
  have b: "patchVttWithTimestampMap None ''/s.vtt'' ([''/s.vtt'' \<mapsto> File example_latin1], [''earlier''])
       = (Inr (),
          [''/s.vtt'' \<mapsto> File [CHR 0x63, CHR 0x61, CHR 0x66, CHR 0xEF, CHR 0xBF, CHR 0xBD, CHR 0x0A, CHR 0x78]],
          [''earlier''])"
  proof -
    have "patchVttWithTimestampMap None ''/s.vtt'' ([''/s.vtt'' \<mapsto> File example_latin1], [''earlier''])
       = (Inr (), [''/s.vtt'' \<mapsto> File example_latin1](''/s.vtt'' \<mapsto> File (utf8_encode (utf8_decode example_latin1))),
          [''earlier''])"
      using t2 l ex_latin1_no_header by blast
    then show ?thesis by (simp add: ex_latin1_rewritten)
  qed
  have c: "patchVttWithTimestampMap (Some (FsError ''/s.vtt'', Map.empty)) ''/s.vtt''
         ([''/s.vtt'' \<mapsto> File example_srt], [''earlier''])
       = (Inr (), Map.empty, [''earlier'', ''[Subtitle Timestamp Patch Error]''])"
    using t1 r by simp
  have d: "patchVttWithTimestampMap None ''/s.vtt'' (Map.empty, [''earlier''])
       = (Inr (), Map.empty, [''earlier'', ''[Subtitle Timestamp Patch Error]''])"
    using t3 e by simp
  show ?thesis
    using r ex_srt_no_header ex_srt_well_formed a l ex_latin1_no_header b c e d by blast
qed

text \<open>
  Claim C8 as stated fails twice. On a file without the header nothing is printed to the
  console. And a file that is not well-formed UTF-8 does not keep its bytes: the byte
  E9 of the Latin-1 file comes back as the three bytes of U+FFFD.
\<close>

theorem patch_without_header_neither_logs_nor_keeps_bytes:
  "findIndex (\<lambda>line. startsWith line (literal ''WEBVTT'')) (split_on 10 (utf8_decode example_srt)) = None
   \<and> patchVttWithTimestampMap None ''/addon/hls/abc/0/subtitles_0.vtt''
        ([''/addon/hls/abc/0/subtitles_0.vtt'' \<mapsto> File example_srt], [])
      = (Inr (), [''/addon/hls/abc/0/subtitles_0.vtt'' \<mapsto> File example_srt], [])
   \<and> findIndex (\<lambda>line. startsWith line (literal ''WEBVTT'')) (split_on 10 (utf8_decode example_latin1)) = None
   \<and> readFile [''/addon/hls/abc/0/subtitles_0.vtt'' \<mapsto> File example_latin1]
        ''/addon/hls/abc/0/subtitles_0.vtt''
      = Inr [CHR 0x63, CHR 0x61, CHR 0x66, CHR 0xE9, CHR 0x0A, CHR 0x78]
   \<and> readFile (fst (snd (patchVttWithTimestampMap None ''/addon/hls/abc/0/subtitles_0.vtt''
        ([''/addon/hls/abc/0/subtitles_0.vtt'' \<mapsto> File example_latin1], []))))
        ''/addon/hls/abc/0/subtitles_0.vtt''
      = Inr [CHR 0x63, CHR 0x61, CHR 0x66, CHR 0xEF, CHR 0xBF, CHR 0xBD, CHR 0x0A, CHR 0x78]"
proof -
  let ?p = "''/addon/hls/abc/0/subtitles_0.vtt''"
  have r: "readFile [?p \<mapsto> File example_srt] ?p = Inr example_srt" by (simp add: readFile_def)
  have l: "readFile [?p \<mapsto> File example_latin1] ?p = Inr example_latin1" by (simp add: readFile_def)
  have "utf8_encode (utf8_decode example_srt) = example_srt"
    by (simp only: utf8_decode_ascii [OF ex_srt_ascii] utf8_encode_literal [OF ex_srt_ascii])
  then have a: "patchVttWithTimestampMap None ?p ([?p \<mapsto> File example_srt], [])
      = (Inr (), [?p \<mapsto> File example_srt], [])"
    by (simp add: patchVtt_no_header [OF r ex_srt_no_header])
  have b: "readFile (fst (snd (patchVttWithTimestampMap None ?p ([?p \<mapsto> File example_latin1], [])))) ?p
      = Inr [CHR 0x63, CHR 0x61, CHR 0x66, CHR 0xEF, CHR 0xBF, CHR 0xBD, CHR 0x0A, CHR 0x78]"
    by (simp add: patchVtt_no_header [OF l ex_latin1_no_header] ex_latin1_rewritten readFile_def)
  have l': "readFile [?p \<mapsto> File example_latin1] ?p
      = Inr [CHR 0x63, CHR 0x61, CHR 0x66, CHR 0xE9, CHR 0x0A, CHR 0x78]"
    using l by (simp add: example_latin1_def)
  show ?thesis using ex_srt_no_header a ex_latin1_no_header l' b by blast
qed

section \<open>The delivery type of the listed streams\<close>

lemma dot_star_then_iff:
  "dot_star_then p s = (\<exists>m b. s = m @ p @ b \<and> (\<forall>x \<in> set m. \<not> is_line_terminator x))"
proof (induction s)
  case Nil
  show ?case by (auto simp: startsWith_iff)
next
  case (Cons c s)
  show ?case
  proof
    assume "dot_star_then p (c # s)"
    then consider "startsWith (c # s) p" | "\<not> is_line_terminator c" "dot_star_then p s" by auto
    then show "\<exists>m b. c # s = m @ p @ b \<and> (\<forall>x \<in> set m. \<not> is_line_terminator x)"
    proof cases
      case 1
      then obtain b where "c # s = p @ b" by (auto simp: startsWith_iff)
      then have "c # s = [] @ p @ b \<and> (\<forall>x \<in> set []. \<not> is_line_terminator x)" by simp
      then show ?thesis by blast
    next
      case 2
      then obtain m b where "s = m @ p @ b" and "\<forall>x \<in> set m. \<not> is_line_terminator x"
        using Cons.IH by blast
      then have "c # s = (c # m) @ p @ b \<and> (\<forall>x \<in> set (c # m). \<not> is_line_terminator x)"
        using 2 by simp
      then show ?thesis by blast
    qed
  next
    assume "\<exists>m b. c # s = m @ p @ b \<and> (\<forall>x \<in> set m. \<not> is_line_terminator x)"
    then obtain m b where e: "c # s = m @ p @ b" and n: "\<forall>x \<in> set m. \<not> is_line_terminator x"
      by blast
    show "dot_star_then p (c # s)"
    proof (cases m)
      case Nil
      then have "startsWith (c # s) p" using e by (simp add: startsWith_iff)
      then show ?thesis by simp
    next
      case (Cons y m')
      then have "s = m' @ p @ b" and "\<not> is_line_terminator c"
        and "\<forall>x \<in> set m'. \<not> is_line_terminator x"
        using e n by auto
      then show ?thesis using Cons.IH by auto
    qed
  qed
qed

lemma startsWith_drop: "startsWith x p \<Longrightarrow> x = p @ drop (length p) x"
  unfolding startsWith_def by (metis append_take_drop_id)

lemma search_iff:
  assumes h: "\<And>c s. matches_here (c # s) = (\<exists>r. c # s = A @ r \<and> R r)"
    and A: "A \<noteq> []"
    and f: "\<And>c s. f (c # s) = (matches_here (c # s) \<or> f s)" "f [] = False"
  shows "f s = (\<exists>a r. s = a @ A @ r \<and> R r)"
proof (induction s)
  case Nil
  show ?case using A f(2) by simp
next
  case (Cons c s)
  show ?case
  proof
    assume "f (c # s)"
    then consider "matches_here (c # s)" | "f s" using f(1) by blast
    then show "\<exists>a r. c # s = a @ A @ r \<and> R r"
    proof cases
      case 1
      then obtain r where "c # s = A @ r" "R r" using h by blast
      then have "c # s = [] @ A @ r \<and> R r" by simp
      then show ?thesis by blast
    next
      case 2
      then obtain a r where "s = a @ A @ r" "R r" using Cons.IH by blast
      then have "c # s = (c # a) @ A @ r \<and> R r" by simp
      then show ?thesis by blast
    qed
  next
    assume "\<exists>a r. c # s = a @ A @ r \<and> R r"
    then obtain a r where e: "c # s = a @ A @ r" and r: "R r" by blast
    show "f (c # s)"
    proof (cases a)
      case Nil
      then have "\<exists>r. c # s = A @ r \<and> R r" using e r by auto
      then have "matches_here (c # s)" using h by blast
      then show ?thesis using f(1) by blast
    next
      case (Cons y a')
      then have "s = a' @ A @ r" using e by simp
      then have "f s" using r Cons.IH by blast
      then show ?thesis using f(1) by blast
    qed
  qed
qed

lemma Android_here:
  "(startsWith (c # s) ''Android'' \<and> dot_star_then ''TV'' (drop 6 s))
     = (\<exists>r. c # s = ''Android'' @ r \<and> dot_star_then ''TV'' r)"
proof
  assume a: "startsWith (c # s) ''Android'' \<and> dot_star_then ''TV'' (drop 6 s)"
  then have "c # s = ''Android'' @ drop (length ''Android'') (c # s)"
    using startsWith_drop by blast
  moreover have "drop (length ''Android'') (c # s) = drop 6 s"
    by (simp add: eval_nat_numeral)
  ultimately have "c # s = ''Android'' @ drop 6 s" by (simp only:)
  then show "\<exists>r. c # s = ''Android'' @ r \<and> dot_star_then ''TV'' r" using a by blast
next
  assume "\<exists>r. c # s = ''Android'' @ r \<and> dot_star_then ''TV'' r"
  then obtain r where e: "c # s = ''Android'' @ r" and d: "dot_star_then ''TV'' r" by blast
  have "startsWith (c # s) ''Android''" using e startsWith_iff by blast
  moreover have "drop 6 s = r" using e by simp
  ultimately show "startsWith (c # s) ''Android'' \<and> dot_star_then ''TV'' (drop 6 s)"
    using d by simp
qed

lemma test_Android_TV_iff:
  "test_Android_TV ua
     = (\<exists>a m b. ua = a @ ''Android'' @ m @ ''TV'' @ b \<and> (\<forall>x \<in> set m. \<not> is_line_terminator x))"
proof -
  have "test_Android_TV ua = (\<exists>a r. ua = a @ ''Android'' @ r \<and> dot_star_then ''TV'' r)"
    by (rule search_iff [where matches_here = "\<lambda>x. startsWith x ''Android'' \<and> dot_star_then ''TV'' (drop 7 x)"])
      (simp_all add: Android_here)
  then show ?thesis
    unfolding dot_star_then_iff by blast
qed

lemma Google_here:
  "(startsWith (c # s) ''Google''
      \<and> (case drop 5 s of [] \<Rightarrow> False | w # r \<Rightarrow> is_space w \<and> startsWith r ''TV''))
     = (\<exists>r. c # s = ''Google'' @ r \<and> (\<exists>w b. r = w # ''TV'' @ b \<and> is_space w))"
proof
  assume a: "startsWith (c # s) ''Google''
      \<and> (case drop 5 s of [] \<Rightarrow> False | w # r \<Rightarrow> is_space w \<and> startsWith r ''TV'')"
  then have "c # s = ''Google'' @ drop (length ''Google'') (c # s)"
    using startsWith_drop by blast
  moreover have "drop (length ''Google'') (c # s) = drop 5 s"
    by (simp add: eval_nat_numeral)
  ultimately have e: "c # s = ''Google'' @ drop 5 s" by (simp only:)
  obtain w r where d: "drop 5 s = w # r" and w: "is_space w" and t: "startsWith r ''TV''"
    using a by (auto split: list.splits)
  obtain b where "r = ''TV'' @ b" using t startsWith_iff by blast
  then have "\<exists>w b. drop 5 s = w # ''TV'' @ b \<and> is_space w" using d w by blast
  then show "\<exists>r. c # s = ''Google'' @ r \<and> (\<exists>w b. r = w # ''TV'' @ b \<and> is_space w)"
    using e by blast
next
  assume "\<exists>r. c # s = ''Google'' @ r \<and> (\<exists>w b. r = w # ''TV'' @ b \<and> is_space w)"
  then obtain w b where e: "c # s = ''Google'' @ w # ''TV'' @ b" and w: "is_space w" by blast
  have "startsWith (c # s) ''Google''" using e startsWith_iff by blast
  moreover have "drop 5 s = w # ''TV'' @ b" using e by simp
  moreover have "startsWith (''TV'' @ b) ''TV''" using startsWith_iff by blast
  ultimately show "startsWith (c # s) ''Google''
      \<and> (case drop 5 s of [] \<Rightarrow> False | w # r \<Rightarrow> is_space w \<and> startsWith r ''TV'')"
    using w by simp
qed

lemma test_Google_TV_iff:
  "test_Google_TV ua = (\<exists>a w b. ua = a @ ''Google'' @ [w] @ ''TV'' @ b \<and> is_space w)"
proof -
  have "test_Google_TV ua
          = (\<exists>a r. ua = a @ ''Google'' @ r \<and> (\<exists>w b. r = w # ''TV'' @ b \<and> is_space w))"
    by (rule search_iff
          [where matches_here = "\<lambda>x. startsWith x ''Google''
                 \<and> (case drop 6 x of [] \<Rightarrow> False | w # r \<Rightarrow> is_space w \<and> startsWith r ''TV'')"])
      (simp_all add: Google_here)
  then show ?thesis by auto
qed

lemma enumerate_from_snd: "map snd (enumerate_from i xs) = xs"
  by (induction xs arbitrary: i) auto

lemma convert_calls_type:
  "c \<in> set (convert_calls q lang userAgent ts) \<Longrightarrow> stream_type c = streamType userAgent"
  by (auto simp: convert_calls_def)

lemma convert_calls_torrents:
  "map torrent (convert_calls q lang userAgent ts) = ts"
proof -
  have "map torrent (convert_calls q lang userAgent ts) = map snd (enumerate_from 0 ts)"
    by (simp add: convert_calls_def case_prod_unfold)
  then show ?thesis by (simp add: enumerate_from_snd)
qed

text \<open>
  Claim C10. The delivery type chosen for a stream listing is \<open>hls\<close> exactly when
  the request has no \<open>User-Agent\<close> header or the header matches one of
  \<open>Android.*TV\<close>, \<open>Google\sTV\<close>, \<open>CrKey\<close>, \<open>Android\<close>, and
  \<open>stream\<close> otherwise. The response holds one stream per ordered torrent, in
  order, and every one of them is converted with that same delivery type.
\<close>

theorem stream_type_by_user_agent:
  "(streamType userAgent = ''hls'')
     = (userAgent = None
        \<or> (\<exists>ua. userAgent = Some ua
              \<and> ((\<exists>a m b. ua = a @ ''Android'' @ m @ ''TV'' @ b
                           \<and> (\<forall>x \<in> set m. \<not> is_line_terminator x))
                 \<or> (\<exists>a w b. ua = a @ ''Google'' @ [w] @ ''TV'' @ b \<and> is_space w)
                 \<or> (\<exists>a b. ua = a @ ''CrKey'' @ b)
                 \<or> (\<exists>a b. ua = a @ ''Android'' @ b))))
   \<and> (streamType userAgent = ''hls'' \<or> streamType userAgent = ''stream'')
   \<and> getStreamsForMedia convertTorrentToStream q lang userAgent ts
       = map convertTorrentToStream (convert_calls q lang userAgent ts)
   \<and> map torrent (convert_calls q lang userAgent ts) = ts
   \<and> (\<forall>c \<in> set (convert_calls q lang userAgent ts). stream_type c = streamType userAgent)"
proof (intro conjI ballI)
  show "(streamType userAgent = ''hls'')
     = (userAgent = None
        \<or> (\<exists>ua. userAgent = Some ua
              \<and> ((\<exists>a m b. ua = a @ ''Android'' @ m @ ''TV'' @ b
                           \<and> (\<forall>x \<in> set m. \<not> is_line_terminator x))
                 \<or> (\<exists>a w b. ua = a @ ''Google'' @ [w] @ ''TV'' @ b \<and> is_space w)
                 \<or> (\<exists>a b. ua = a @ ''CrKey'' @ b)
                 \<or> (\<exists>a b. ua = a @ ''Android'' @ b))))"
  proof (cases userAgent)
    case None
    then show ?thesis by (simp add: streamType_def)
  next
    case (Some ua)
    have "(streamType (Some ua) = ''hls'')
            = (test_Android_TV ua \<or> test_Google_TV ua \<or> includes_str ua ''CrKey''
                \<or> includes_str ua ''Android'')"
      by (simp add: streamType_def)
    then show ?thesis
      unfolding Some test_Android_TV_iff test_Google_TV_iff includes_str_iff by simp
  qed
  show "streamType userAgent = ''hls'' \<or> streamType userAgent = ''stream''"
    by (simp add: streamType_def split: option.splits)
  show "getStreamsForMedia convertTorrentToStream q lang userAgent ts
       = map convertTorrentToStream (convert_calls q lang userAgent ts)"
    by (simp add: getStreamsForMedia_def)
  show "map torrent (convert_calls q lang userAgent ts) = ts"
    by (rule convert_calls_torrents)
next
  fix c
  assume "c \<in> set (convert_calls q lang userAgent ts)"
  then show "stream_type c = streamType userAgent" by (rule convert_calls_type)
qed

theorem stream_type_of_android_tv_and_desktop:
  "streamType (Some ''Mozilla/5.0 (Linux; Android 11; BRAVIA 4K)'') = ''hls''
   \<and> map stream_type
         (convert_calls \<lparr>q_deviceToken = ''token'', q_season = None, q_episode = None\<rparr> ''hu''
            (Some ''Mozilla/5.0 (Linux; Android 11; BRAVIA 4K)'') [''first'', ''second''])
       = [''hls'', ''hls'']
   \<and> streamType (Some ''Mozilla/5.0 (Windows NT 10.0; Win64; x64)'') = ''stream''"
proof -
  let ?tv = "''Mozilla/5.0 (Linux; Android 11; BRAVIA 4K)''"
  let ?pc = "''Mozilla/5.0 (Windows NT 10.0; Win64; x64)''"
  let ?q = "\<lparr>q_deviceToken = ''token'', q_season = None, q_episode = None\<rparr>"
  let ?calls = "convert_calls ?q ''hu'' (Some ?tv) [''first'', ''second'']"
  note t = stream_type_by_user_agent [of "Some ?tv" id ?q "''hu''" "[''first'', ''second'']"]
  have "?tv = ''Mozilla/5.0 (Linux; '' @ ''Android'' @ '' 11; BRAVIA 4K)''" by simp
  then have "\<exists>a b. ?tv = a @ ''Android'' @ b" by blast
  then have hls: "streamType (Some ?tv) = ''hls''" using t by blast
  from t have "map torrent ?calls = [''first'', ''second'']" by blast
  then obtain c1 c2 where c: "?calls = [c1, c2]" by auto
  from t have "\<forall>c \<in> set ?calls. stream_type c = streamType (Some ?tv)" by blast
  then have m: "map stream_type ?calls = [''hls'', ''hls'']"
    unfolding c hls by simp
  have "streamType (Some ?pc) \<noteq> ''hls''"
    by (simp add: streamType_def startsWith_def)
  then have "streamType (Some ?pc) = ''stream''"
    using stream_type_by_user_agent [of "Some ?pc" id ?q "''hu''" "[]"] by blast
  then show ?thesis using hls m by simp
qed

section \<open>Facts about the readiness polling\<close>

lemma wait_for_sound:
  "wait_for fuel bg p (k, world_at bg s0 k) = Some (f', k', s')
     \<Longrightarrow> s' = world_at bg s0 k' \<and> k \<le> k' \<and> existsSync s' p
         \<and> (\<forall>j. k \<le> j \<and> j < k' \<longrightarrow> \<not> existsSync (world_at bg s0 j) p)
         \<and> f' + (k' - k) = fuel"
proof (induction fuel arbitrary: k)
  case 0
  then show ?case by (auto split: if_splits)
next
  case (Suc fuel)
  show ?case
  proof (cases "existsSync (world_at bg s0 k) p")
    case True
    then show ?thesis using Suc.prems by auto
  next
    case False
    then have "wait_for fuel bg p (Suc k, world_at bg s0 (Suc k)) = Some (f', k', s')"
      using Suc.prems by simp
    then have ih: "s' = world_at bg s0 k' \<and> Suc k \<le> k' \<and> existsSync s' p
         \<and> (\<forall>j. Suc k \<le> j \<and> j < k' \<longrightarrow> \<not> existsSync (world_at bg s0 j) p)
         \<and> f' + (k' - Suc k) = fuel"
      by (rule Suc.IH)
    have "\<forall>j. k \<le> j \<and> j < k' \<longrightarrow> \<not> existsSync (world_at bg s0 j) p"
    proof (intro allI impI)
      fix j
      assume j: "k \<le> j \<and> j < k'"
      show "\<not> existsSync (world_at bg s0 j) p"
      proof (cases "j = k")
        case True
        then show ?thesis using False by simp
      next
        case False
        then have "Suc k \<le> j \<and> j < k'" using j by simp
        then show ?thesis using ih by blast
      qed
    qed
    then show ?thesis using ih by auto
  qed
qed

lemma wait_for_live:
  "k \<le> T \<Longrightarrow> existsSync (world_at bg s0 T) p \<Longrightarrow> T - k \<le> fuel
     \<Longrightarrow> \<exists>f' k'. wait_for fuel bg p (k, world_at bg s0 k) = Some (f', k', world_at bg s0 k')
           \<and> k \<le> k' \<and> k' \<le> T \<and> f' + (k' - k) = fuel"
proof (induction fuel arbitrary: k)
  case 0
  then have "k = T" by simp
  then show ?case using 0 by simp
next
  case (Suc fuel)
  show ?case
  proof (cases "existsSync (world_at bg s0 k) p")
    case True
    then show ?thesis using Suc.prems by simp
  next
    case False
    then have "k \<noteq> T" using Suc.prems by auto
    then have "Suc k \<le> T" and "T - Suc k \<le> fuel" using Suc.prems by simp_all
    then obtain f' k' where
      w: "wait_for fuel bg p (Suc k, world_at bg s0 (Suc k)) = Some (f', k', world_at bg s0 k')"
      and b: "Suc k \<le> k'" "k' \<le> T" "f' + (k' - Suc k) = fuel"
      using Suc.IH [of "Suc k"] Suc.prems(2) by blast
    have "wait_for (Suc fuel) bg p (k, world_at bg s0 k) = Some (f', k', world_at bg s0 k')"
      using False w by simp
    moreover have "k \<le> k'" and "f' + (k' - k) = Suc fuel" using b by simp_all
    ultimately show ?thesis using b(2) by blast
  qed
qed

lemma wait_for_never:
  "(\<forall>k t. \<not> existsSync t p \<longrightarrow> \<not> existsSync (bg k t) p) \<Longrightarrow> \<not> existsSync s p
     \<Longrightarrow> wait_for fuel bg p (k, s) = None"
  by (induction fuel arbitrary: k s) simp_all

lemma play_hls_get:
  assumes "req_method req = ''GET''"
    and "safeParse env = Inr params"
    and "getFile env params = Inr file"
    and "delivery params = ''hls''"
  shows "play fuel env req s = play_hls fuel env req params file s"
  using assms by (simp add: play_def)

lemma play_hls_polls:
  assumes "req_method req = ''GET''"
    and "ensure_session env params file s = (s1, Inr jobs)"
  shows "play_hls fuel env req params file s
     = (case wait_for fuel (background env)
               (path_join (hls_outputDir (ADDON_DIR env) params) ''master.m3u8'') (0, s1) of
          None \<Rightarrow> None
        | Some (fuel1, k1, s2) \<Rightarrow>
            (case wait_for fuel1 (background env)
                    (path_join (hls_outputDir (ADDON_DIR env) params) ''segment_004.ts'') (k1, s2) of
               None \<Rightarrow> None
             | Some (fuel2, k2, s3) \<Rightarrow>
                 (case readFile s3 (path_join (hls_outputDir (ADDON_DIR env) params) ''master.m3u8'') of
                    Inl err \<Rightarrow> Some (k2, s3, Inl err)
                  | Inr m3u8File \<Rightarrow>
                      Some (k2, s3, Inr \<lparr>resp_status = 200,
                                        resp_headers = [(''Content-Type'', ''application/vnd.apple.mpegurl'')],
                                        resp_body = Content m3u8File\<rparr>))))"
  using assms by (simp add: play_hls_def Let_def)

lemma play_hls_throws:
  assumes "req_method req = ''GET''"
    and "ensure_session env params file s = (s1, Inl err)"
  shows "play_hls fuel env req params file s = Some (0, s1, Inl err)"
  using assms by (simp add: play_hls_def Let_def)

lemma readFile_exists: "readFile s p = Inr c \<Longrightarrow> existsSync s p"
  by (auto simp: readFile_def existsSync_def split: option.splits)

lemma persists_upto:
  "\<forall>j. P (w j) \<longrightarrow> P (w (Suc j)) \<Longrightarrow> P (w a) \<Longrightarrow> a \<le> b \<Longrightarrow> P (w (b::nat))"
  by (induction b) (auto simp: le_Suc_eq)

lemma hls_play_safety:
  assumes get: "req_method req = ''GET''"
    and parse: "safeParse env = Inr params"
    and fileOk: "getFile env params = Inr file"
    and hls: "delivery params = ''hls''"
    and ret: "play fuel env req s = Some (k, s', Inr r)"
  shows "s' = world_at (background env) (fst (ensure_session env params file s)) k
    \<and> existsSync s' (path_join (hls_outputDir (ADDON_DIR env) params) ''master.m3u8'')
    \<and> existsSync s' (path_join (hls_outputDir (ADDON_DIR env) params) ''segment_004.ts'')
    \<and> (\<forall>j. j < k \<longrightarrow>
          \<not> (existsSync (world_at (background env) (fst (ensure_session env params file s)) j)
                (path_join (hls_outputDir (ADDON_DIR env) params) ''master.m3u8'')
             \<and> existsSync (world_at (background env) (fst (ensure_session env params file s)) j)
                (path_join (hls_outputDir (ADDON_DIR env) params) ''segment_004.ts'')))
    \<and> resp_status r = 200
    \<and> readFile s' (path_join (hls_outputDir (ADDON_DIR env) params) ''master.m3u8'')
        = Inr (case resp_body r of Content m \<Rightarrow> m | _ \<Rightarrow> [])
    \<and> (\<exists>m. resp_body r = Content m)"
proof -
  let ?master = "path_join (hls_outputDir (ADDON_DIR env) params) ''master.m3u8''"
  let ?seg = "path_join (hls_outputDir (ADDON_DIR env) params) ''segment_004.ts''"
  let ?bg = "background env"
  obtain s1 init where es: "ensure_session env params file s = (s1, init)"
    by (cases "ensure_session env params file s") auto
  have ph: "play_hls fuel env req params file s = Some (k, s', Inr r)"
    using ret play_hls_get [OF get parse fileOk hls] by simp
  obtain jobs where init: "init = Inr jobs"
    using ph play_hls_throws [OF get, of env params "file" s s1] es by (cases init) auto
  note polls = play_hls_polls [OF get es [unfolded init], of fuel]
  obtain f1 k1 s2 where w1: "wait_for fuel ?bg ?master (0, s1) = Some (f1, k1, s2)"
    using ph polls by (cases "wait_for fuel ?bg ?master (0, s1)") auto
  obtain f2 k2 s3 where w2: "wait_for f1 ?bg ?seg (k1, s2) = Some (f2, k2, s3)"
    using ph polls w1 by (cases "wait_for f1 ?bg ?seg (k1, s2)") auto
  obtain m where rd: "readFile s3 ?master = Inr m"
    using ph polls w1 w2 by (cases "readFile s3 ?master") auto
  have res: "k = k2" "s' = s3" "resp_status r = 200" "resp_body r = Content m"
    using ph polls w1 w2 rd by auto
  have "wait_for fuel ?bg ?master (0, world_at ?bg s1 0) = Some (f1, k1, s2)"
    using w1 by simp
  then have a: "s2 = world_at ?bg s1 k1"
    and na: "\<forall>j. 0 \<le> j \<and> j < k1 \<longrightarrow> \<not> existsSync (world_at ?bg s1 j) ?master"
    using wait_for_sound [of fuel ?bg ?master 0 s1 f1 k1 s2] by blast+
  have "wait_for f1 ?bg ?seg (k1, world_at ?bg s1 k1) = Some (f2, k2, s3)"
    using w2 a by simp
  then have b: "s3 = world_at ?bg s1 k2" and sg: "existsSync s3 ?seg"
    and nb: "\<forall>j. k1 \<le> j \<and> j < k2 \<longrightarrow> \<not> existsSync (world_at ?bg s1 j) ?seg"
    using wait_for_sound [of f1 ?bg ?seg k1 s1 f2 k2 s3] by blast+
  have early: "\<forall>j. j < k2 \<longrightarrow>
          \<not> (existsSync (world_at ?bg s1 j) ?master \<and> existsSync (world_at ?bg s1 j) ?seg)"
  proof (intro allI impI)
    fix j
    assume "j < k2"
    then consider "j < k1" | "k1 \<le> j \<and> j < k2" by linarith
    then show "\<not> (existsSync (world_at ?bg s1 j) ?master \<and> existsSync (world_at ?bg s1 j) ?seg)"
      using na nb by cases auto
  qed
  have ms: "existsSync s3 ?master" using rd by (rule readFile_exists)
  show ?thesis
    using res b sg ms early rd by (simp add: es)
qed

lemma hls_play_liveness:
  assumes get: "req_method req = ''GET''"
    and parse: "safeParse env = Inr params"
    and fileOk: "getFile env params = Inr file"
    and hls: "delivery params = ''hls''"
    and init: "snd (ensure_session env params file s) = Inr jobs"
    and keep: "\<forall>j. existsSync (world_at (background env) (fst (ensure_session env params file s)) j)
                    (path_join (hls_outputDir (ADDON_DIR env) params) ''master.m3u8'')
               \<longrightarrow> existsSync (world_at (background env) (fst (ensure_session env params file s)) (Suc j))
                    (path_join (hls_outputDir (ADDON_DIR env) params) ''master.m3u8'')"
    and nodir: "\<forall>j. world_at (background env) (fst (ensure_session env params file s)) j
                    (path_join (hls_outputDir (ADDON_DIR env) params) ''master.m3u8'') \<noteq> Some Dir"
    and ready: "existsSync (world_at (background env) (fst (ensure_session env params file s)) T)
                    (path_join (hls_outputDir (ADDON_DIR env) params) ''master.m3u8'')"
               "existsSync (world_at (background env) (fst (ensure_session env params file s)) T)
                    (path_join (hls_outputDir (ADDON_DIR env) params) ''segment_004.ts'')"
    and fuel: "T \<le> fuel"
  shows "\<exists>k m. k \<le> T
           \<and> readFile (world_at (background env) (fst (ensure_session env params file s)) k)
                (path_join (hls_outputDir (ADDON_DIR env) params) ''master.m3u8'') = Inr m
           \<and> play fuel env req s
               = Some (k, world_at (background env) (fst (ensure_session env params file s)) k,
                       Inr \<lparr>resp_status = 200,
                            resp_headers = [(''Content-Type'', ''application/vnd.apple.mpegurl'')],
                            resp_body = Content m\<rparr>)"
proof -
  let ?master = "path_join (hls_outputDir (ADDON_DIR env) params) ''master.m3u8''"
  let ?seg = "path_join (hls_outputDir (ADDON_DIR env) params) ''segment_004.ts''"
  let ?bg = "background env"
  let ?s1 = "fst (ensure_session env params file s)"
  have es: "ensure_session env params file s = (?s1, Inr jobs)"
    using init by (cases "ensure_session env params file s") auto
  note polls = play_hls_polls [OF get es, of fuel]
  obtain f1 k1 where w1: "wait_for fuel ?bg ?master (0, world_at ?bg ?s1 0)
                            = Some (f1, k1, world_at ?bg ?s1 k1)"
    and k1: "k1 \<le> T" and f1: "f1 + (k1 - 0) = fuel"
    using wait_for_live [of 0 T ?bg ?s1 ?master fuel] ready(1) fuel by auto
  have m1: "existsSync (world_at ?bg ?s1 k1) ?master"
    using wait_for_sound [OF w1] by simp
  have "T - k1 \<le> f1" using f1 fuel by simp
  then obtain f2 k2 where w2: "wait_for f1 ?bg ?seg (k1, world_at ?bg ?s1 k1)
                                 = Some (f2, k2, world_at ?bg ?s1 k2)"
    and k2: "k1 \<le> k2" "k2 \<le> T"
    using wait_for_live [of k1 T ?bg ?s1 ?seg f1] ready(2) k1 by blast
  have "existsSync (world_at ?bg ?s1 k2) ?master"
    using keep m1 k2(1) by (rule persists_upto [where P = "\<lambda>t. existsSync t ?master"])
  then obtain n where n: "world_at ?bg ?s1 k2 ?master = Some n"
    by (auto simp: existsSync_def)
  then have "n \<noteq> Dir" using nodir [rule_format, of k2] by simp
  then obtain m where "n = File m" by (cases n) auto
  then have rd: "readFile (world_at ?bg ?s1 k2) ?master = Inr m"
    using n by (simp add: readFile_def)
  have "play_hls fuel env req params file s
          = Some (k2, world_at ?bg ?s1 k2,
                  Inr \<lparr>resp_status = 200,
                       resp_headers = [(''Content-Type'', ''application/vnd.apple.mpegurl'')],
                       resp_body = Content m\<rparr>)"
    using polls w1 w2 rd by simp
  then show ?thesis
    using k2(2) rd play_hls_get [OF get parse fileOk hls] by auto
qed

lemma path_join_neq: "path_join d x \<noteq> d"
proof
  assume "path_join d x = d"
  then have "length (path_join d x) = length d" by simp
  then show False by (simp add: path_join_def)
qed

lemma example_outputDir: "hls_outputDir ''/addon'' (example_params d) = ''/addon/hls/abc/0''"
  by (simp add: hls_outputDir_def example_params_def path_join_def toString.simps digit_char_def)

lemma existsSync_writeFile: "existsSync (writeFile s p c) q = (q = p \<or> existsSync s q)"
  by (simp add: existsSync_def writeFile_def)

lemma example_session:
  "ensure_session (example_env ''hls'' (Inr example_metadata) example_background)
       (example_params ''hls'') example_file Map.empty
     = (generatePreGeneratedM3U8Master ''/addon/hls/abc/0'' (codecInfo_of example_metadata)
          (generatePreGeneratedM3U8Video ''/addon/hls/abc/0'' (codecInfo_of example_metadata)
             (generatePreGeneratedM3U8Subtitle (\<lambda>x. toString_int \<lfloor>x\<rfloor>) ''/addon/hls/abc/0''
                (codecInfo_of example_metadata)
                (generatePreGeneratedM3U8Audio ''/addon/hls/abc/0'' (codecInfo_of example_metadata)
                   [''/addon/hls/abc/0'' \<mapsto> Dir]))),
        Inr (generateHLS ''/addon/hls/abc/0'' [] (codecInfo_of example_metadata)))"
  by (simp add: ensure_session_def init_session_def getFileCodecInfoFromStream_def mkdirSync_def
      existsSync_def example_env_def example_outputDir Let_def)

lemma example_world_master:
  "session_world (example_env ''hls'' (Inr example_metadata) example_background)
       (example_params ''hls'') example_file Map.empty j ''/addon/hls/abc/0/master.m3u8''
     = Some (File (join_nl (master_m3u8 (codecInfo_of example_metadata))))"
proof (induction j)
  case 0
  show ?case
    by (simp add: example_session generatePreGeneratedM3U8Master_def writeFile_def path_join_def)
next
  case (Suc j)
  have "path_join ''/addon/hls/abc/0'' (video_segment_name j) \<noteq> ''/addon/hls/abc/0/master.m3u8''"
    by (simp add: path_join_def video_segment_name_def)
  then show ?case
    using Suc by (simp add: example_env_def example_background_def writeFile_def)
qed

section \<open>The readiness gate\<close>

text \<open>
  Claim C1. Take an HLS-mode GET request. If \<open>play\<close> returns a response after
  \<open>k\<close> sleeps, then at that moment the session's \<open>master.m3u8\<close> and
  \<open>segment_004.ts\<close> both exist, at no earlier poll of the request did both exist,
  the status is 200 and the body is the content of \<open>master.m3u8\<close>. Conversely, if
  the session set-up did not throw, the master playlist is a file that stays once it is
  there, and both files exist after \<open>T\<close> sleeps, then \<open>play\<close>, allowed at
  least \<open>T\<close> sleeps, returns such a response after at most \<open>T\<close> sleeps.
\<close>

theorem hls_play_waits_for_master_and_fifth_segment:
  assumes "req_method req = ''GET''"
    and "safeParse env = Inr params"
    and "getFile env params = Inr file"
    and "delivery params = ''hls''"
  shows "(\<forall>k s' r. play fuel env req s = Some (k, s', Inr r) \<longrightarrow>
            s' = session_world env params file s k
            \<and> existsSync s' (session_master env params)
            \<and> existsSync s' (session_segment_004 env params)
            \<and> (\<forall>j. j < k \<longrightarrow>
                  \<not> (existsSync (session_world env params file s j) (session_master env params)
                     \<and> existsSync (session_world env params file s j)
                          (session_segment_004 env params)))
            \<and> resp_status r = 200
            \<and> (\<exists>m. readFile s' (session_master env params) = Inr m \<and> resp_body r = Content m))
    \<and> (\<forall>T jobs.
          snd (ensure_session env params file s) = Inr jobs
          \<and> (\<forall>j. existsSync (session_world env params file s j) (session_master env params)
                 \<longrightarrow> existsSync (session_world env params file s (Suc j))
                       (session_master env params))
          \<and> (\<forall>j. session_world env params file s j (session_master env params) \<noteq> Some Dir)
          \<and> existsSync (session_world env params file s T) (session_master env params)
          \<and> existsSync (session_world env params file s T) (session_segment_004 env params)
          \<and> T \<le> fuel
          \<longrightarrow> (\<exists>k m. k \<le> T
                 \<and> readFile (session_world env params file s k) (session_master env params) = Inr m
                 \<and> play fuel env req s
                     = Some (k, session_world env params file s k,
                             Inr \<lparr>resp_status = 200,
                                  resp_headers = [(''Content-Type'', ''application/vnd.apple.mpegurl'')],
                                  resp_body = Content m\<rparr>)))"
proof (intro conjI allI impI)
  fix k s' r
  assume ret: "play fuel env req s = Some (k, s', Inr r)"
  note sf = hls_play_safety [OF assms ret]
  show "s' = session_world env params file s k" using sf by blast
  show "existsSync s' (session_master env params)" using sf by blast
  show "existsSync s' (session_segment_004 env params)" using sf by blast
  show "resp_status r = 200" using sf by blast
  from sf obtain m where "resp_body r = Content m" by blast
  moreover from sf have "readFile s' (session_master env params)
        = Inr (case resp_body r of Content m \<Rightarrow> m | _ \<Rightarrow> [])" by blast
  ultimately show "\<exists>m. readFile s' (session_master env params) = Inr m \<and> resp_body r = Content m"
    by simp
  fix j
  assume "j < k"
  then show "\<not> (existsSync (session_world env params file s j) (session_master env params)
                     \<and> existsSync (session_world env params file s j)
                          (session_segment_004 env params))"
    using sf by blast
next
  fix T jobs
  assume h: "snd (ensure_session env params file s) = Inr jobs
          \<and> (\<forall>j. existsSync (session_world env params file s j) (session_master env params)
                 \<longrightarrow> existsSync (session_world env params file s (Suc j))
                       (session_master env params))
          \<and> (\<forall>j. session_world env params file s j (session_master env params) \<noteq> Some Dir)
          \<and> existsSync (session_world env params file s T) (session_master env params)
          \<and> existsSync (session_world env params file s T) (session_segment_004 env params)
          \<and> T \<le> fuel"
  show "\<exists>k m. k \<le> T
                 \<and> readFile (session_world env params file s k) (session_master env params) = Inr m
                 \<and> play fuel env req s
                     = Some (k, session_world env params file s k,
                             Inr \<lparr>resp_status = 200,
                                  resp_headers = [(''Content-Type'', ''application/vnd.apple.mpegurl'')],
                                  resp_body = Content m\<rparr>)"
    by (rule hls_play_liveness [OF assms]) (use h in blast)+
qed

theorem hls_play_example_session:
  "\<exists>k. k \<le> 5
     \<and> play 5 (example_env ''hls'' (Inr example_metadata) example_background)
         \<lparr>req_method = ''GET'', req_range = None\<rparr> Map.empty
       = Some (k,
               session_world (example_env ''hls'' (Inr example_metadata) example_background)
                 (example_params ''hls'') example_file Map.empty k,
               Inr \<lparr>resp_status = 200,
                    resp_headers = [(''Content-Type'', ''application/vnd.apple.mpegurl'')],
                    resp_body = Content (join_nl (master_m3u8 (codecInfo_of example_metadata)))\<rparr>)"
proof -
  let ?env = "example_env ''hls'' (Inr example_metadata) example_background"
  let ?req = "\<lparr>req_method = ''GET'', req_range = None\<rparr>"
  let ?w = "session_world ?env (example_params ''hls'') example_file Map.empty"
  have d: "hls_outputDir (ADDON_DIR ?env) (example_params ''hls'') = ''/addon/hls/abc/0''"
    by (simp add: example_env_def example_outputDir)
  have m: "session_master ?env (example_params ''hls'') = ''/addon/hls/abc/0/master.m3u8''"
    unfolding d by (simp add: path_join_def)
  have g: "session_segment_004 ?env (example_params ''hls'') = ''/addon/hls/abc/0/segment_004.ts''"
    unfolding d by (simp add: path_join_def)
  have master: "\<And>j. ?w j ''/addon/hls/abc/0/master.m3u8''
                  = Some (File (join_nl (master_m3u8 (codecInfo_of example_metadata))))"
    by (rule example_world_master)
  have pre: "req_method ?req = ''GET''" "safeParse ?env = Inr (example_params ''hls'')"
    "getFile ?env (example_params ''hls'') = Inr example_file"
    "delivery (example_params ''hls'') = ''hls''"
    by (simp_all add: example_env_def example_params_def)
  note t = hls_play_waits_for_master_and_fifth_segment [OF pre, of 5 Map.empty]
  have seg: "existsSync (?w 5) ''/addon/hls/abc/0/segment_004.ts''"
  proof -
    have "?w 5 = example_background 4 (?w 4)"
      by (simp add: eval_nat_numeral example_env_def)
    then show ?thesis
      by (simp add: example_background_def existsSync_writeFile path_join_def
          video_segment_name_def padStart_def toString.simps digit_char_def numeral_2_eq_2)
  qed
  have h: "snd (ensure_session ?env (example_params ''hls'') example_file Map.empty)
             = Inr (generateHLS ''/addon/hls/abc/0'' [] (codecInfo_of example_metadata))
          \<and> (\<forall>j. existsSync (?w j) (session_master ?env (example_params ''hls''))
                 \<longrightarrow> existsSync (?w (Suc j)) (session_master ?env (example_params ''hls'')))
          \<and> (\<forall>j. ?w j (session_master ?env (example_params ''hls'')) \<noteq> Some Dir)
          \<and> existsSync (?w 5) (session_master ?env (example_params ''hls''))
          \<and> existsSync (?w 5) (session_segment_004 ?env (example_params ''hls''))
          \<and> (5::nat) \<le> 5"
  proof (intro conjI)
    show "snd (ensure_session ?env (example_params ''hls'') example_file Map.empty)
             = Inr (generateHLS ''/addon/hls/abc/0'' [] (codecInfo_of example_metadata))"
      by (simp add: example_session)
    show "\<forall>j. existsSync (?w j) (session_master ?env (example_params ''hls''))
                 \<longrightarrow> existsSync (?w (Suc j)) (session_master ?env (example_params ''hls''))"
      unfolding m existsSync_def master by simp
    show "\<forall>j. ?w j (session_master ?env (example_params ''hls'')) \<noteq> Some Dir"
      unfolding m master by simp
    show "existsSync (?w 5) (session_master ?env (example_params ''hls''))"
      unfolding m existsSync_def master by simp
    show "existsSync (?w 5) (session_segment_004 ?env (example_params ''hls''))"
      unfolding g by (rule seg)
    show "(5::nat) \<le> 5" by simp
  qed
  from t h obtain k c where k: "k \<le> 5"
    and rd: "readFile (?w k) (session_master ?env (example_params ''hls'')) = Inr c"
    and pl: "play 5 ?env ?req Map.empty
               = Some (k, ?w k,
                       Inr \<lparr>resp_status = 200,
                            resp_headers = [(''Content-Type'', ''application/vnd.apple.mpegurl'')],
                            resp_body = Content c\<rparr>)"
    by blast
  have "c = join_nl (master_m3u8 (codecInfo_of example_metadata))"
    using rd unfolding m by (simp add: readFile_def master)
  then show ?thesis using k pl by blast
qed

section \<open>A failed probe\<close>

text \<open>
  Claim C9. Take the first HLS-mode GET request for a key: the output directory does not
  exist (and so neither does a master playlist in it). If the probe rejects with
  \<open>err\<close>, then \<open>play\<close> throws \<open>err\<close> and leaves the file system as it
  was but for the output directory, which now exists. From that state every later
  HLS-mode GET request for the same output directory, whatever its collaborators report,
  is still polling after any number of sleeps, as long as nothing else creates the master
  playlist.
\<close>

theorem probe_failure_leaves_directory_and_later_requests_hang:
  assumes "req_method req = ''GET''"
    and "safeParse env = Inr params"
    and "getFile env params = Inr file"
    and "delivery params = ''hls''"
    and "\<not> existsSync s (hls_outputDir (ADDON_DIR env) params)"
    and "\<not> existsSync s (session_master env params)"
    and "ffprobe env file = Inl err"
  shows "play fuel env req s = Some (0, s(hls_outputDir (ADDON_DIR env) params \<mapsto> Dir), Inl err)
    \<and> (\<forall>fuel' env' req' params' file'.
          req_method req' = ''GET''
          \<and> safeParse env' = Inr params'
          \<and> getFile env' params' = Inr file'
          \<and> delivery params' = ''hls''
          \<and> hls_outputDir (ADDON_DIR env') params' = hls_outputDir (ADDON_DIR env) params
          \<and> (\<forall>k t. \<not> existsSync t (session_master env params)
                 \<longrightarrow> \<not> existsSync (background env' k t) (session_master env params))
          \<longrightarrow> play fuel' env' req' (s(hls_outputDir (ADDON_DIR env) params \<mapsto> Dir)) = None)"
proof (intro conjI allI impI)
  let ?dir = "hls_outputDir (ADDON_DIR env) params"
  have es: "ensure_session env params file s = (s(?dir \<mapsto> Dir), Inl err)"
    using assms(5,7)
    by (simp add: ensure_session_def init_session_def getFileCodecInfoFromStream_def mkdirSync_def)
  show "play fuel env req s = Some (0, s(?dir \<mapsto> Dir), Inl err)"
    using play_hls_throws [OF assms(1) es] play_hls_get [OF assms(1-4)] by simp
next
  fix fuel' :: nat and env' :: Collaborators and req' :: Request and params' :: PlayParams
    and file' :: TorrentFile
  let ?dir = "hls_outputDir (ADDON_DIR env) params"
  let ?s2 = "s(?dir \<mapsto> Dir)"
  assume h: "req_method req' = ''GET''
          \<and> safeParse env' = Inr params'
          \<and> getFile env' params' = Inr file'
          \<and> delivery params' = ''hls''
          \<and> hls_outputDir (ADDON_DIR env') params' = ?dir
          \<and> (\<forall>k t. \<not> existsSync t (session_master env params)
                 \<longrightarrow> \<not> existsSync (background env' k t) (session_master env params))"
  then have d: "hls_outputDir (ADDON_DIR env') params' = ?dir" by blast
  have es: "ensure_session env' params' file' ?s2 = (?s2, Inr [])"
    by (simp add: ensure_session_def d existsSync_def)
  have "\<not> existsSync ?s2 (session_master env params)"
    using assms(6) path_join_neq [of ?dir "''master.m3u8''"] by (simp add: existsSync_def)
  then have "wait_for fuel' (background env') (session_master env params) (0, ?s2) = None"
    using h by (intro wait_for_never) blast+
  then have "play_hls fuel' env' req' params' file' ?s2 = None"
    using h play_hls_polls [of req' env' params' file' ?s2 ?s2 "[]" fuel'] es d by simp
  then show "play fuel' env' req' ?s2 = None"
    using h play_hls_get [of req' env' params' file' fuel' ?s2] by simp
qed

theorem probe_failure_example:
  "play 0 (example_env ''hls'' (Inl (ProbeFailure ''Invalid data found'')) (\<lambda>k s. s))
       \<lparr>req_method = ''GET'', req_range = None\<rparr> Map.empty
     = Some (0, [''/addon/hls/abc/0'' \<mapsto> Dir], Inl (ProbeFailure ''Invalid data found''))
   \<and> play 1000 (example_env ''hls'' (Inr example_metadata) (\<lambda>k s. s))
       \<lparr>req_method = ''GET'', req_range = None\<rparr> [''/addon/hls/abc/0'' \<mapsto> Dir]
     = None"
proof -
  let ?env = "example_env ''hls'' (Inl (ProbeFailure ''Invalid data found'')) (\<lambda>k s. s)"
  let ?env' = "example_env ''hls'' (Inr example_metadata) (\<lambda>k s. s)"
  let ?req = "\<lparr>req_method = ''GET'', req_range = None\<rparr>"
  have d: "hls_outputDir (ADDON_DIR ?env) (example_params ''hls'') = ''/addon/hls/abc/0''"
    "hls_outputDir (ADDON_DIR ?env') (example_params ''hls'') = ''/addon/hls/abc/0''"
    by (simp_all add: example_env_def example_outputDir)
  have t: "play 0 ?env ?req Map.empty
             = Some (0, [hls_outputDir (ADDON_DIR ?env) (example_params ''hls'') \<mapsto> Dir],
                     Inl (ProbeFailure ''Invalid data found''))
    \<and> (\<forall>fuel' env' req' params' file'.
          req_method req' = ''GET''
          \<and> safeParse env' = Inr params'
          \<and> getFile env' params' = Inr file'
          \<and> delivery params' = ''hls''
          \<and> hls_outputDir (ADDON_DIR env') params' = hls_outputDir (ADDON_DIR ?env) (example_params ''hls'')
          \<and> (\<forall>k t. \<not> existsSync t (session_master ?env (example_params ''hls''))
                 \<longrightarrow> \<not> existsSync (background env' k t) (session_master ?env (example_params ''hls'')))
          \<longrightarrow> play fuel' env' req' [hls_outputDir (ADDON_DIR ?env) (example_params ''hls'') \<mapsto> Dir] = None)"
    by (rule probe_failure_leaves_directory_and_later_requests_hang [where ?file = example_file])
      (simp_all add: example_env_def example_params_def existsSync_def)
  then have first: "play 0 ?env ?req Map.empty
             = Some (0, [''/addon/hls/abc/0'' \<mapsto> Dir], Inl (ProbeFailure ''Invalid data found''))"
    unfolding d by blast
  have "req_method ?req = ''GET''
          \<and> safeParse ?env' = Inr (example_params ''hls'')
          \<and> getFile ?env' (example_params ''hls'') = Inr example_file
          \<and> delivery (example_params ''hls'') = ''hls''
          \<and> hls_outputDir (ADDON_DIR ?env') (example_params ''hls'')
              = hls_outputDir (ADDON_DIR ?env) (example_params ''hls'')
          \<and> (\<forall>k t. \<not> existsSync t (session_master ?env (example_params ''hls''))
                 \<longrightarrow> \<not> existsSync (background ?env' k t) (session_master ?env (example_params ''hls'')))"
    unfolding d by (simp add: example_env_def example_params_def)
  with t have "play 1000 ?env' ?req [hls_outputDir (ADDON_DIR ?env) (example_params ''hls'') \<mapsto> Dir] = None"
    by blast
  then show ?thesis using first unfolding d by simp
qed

section \<open>The video job: copy or re-encode\<close>

text \<open>
  Claim C4. The value the video job's argument vector gives \<open>-c:v\<close> is \<open>copy\<close>
  exactly when the source video codec is \<open>h264\<close> and the pixel format, if there is
  one, does not contain the text \<open>10\<close> (the controller's test for 10-bit depth). In
  every other case the vector gives \<open>-c:v\<close> the value \<open>libx264\<close> and
  \<open>-preset\<close> the value \<open>ultrafast\<close>.
\<close>

theorem video_job_copy_iff_h264_not_10bit:
  "(option_value ''-c:v'' (hlsArgs outputDir basePath ci) = Some ''copy'')
     = (videoCodec ci = Some ''h264'' \<and> \<not> (\<exists>a b. pixFmt ci = Some (a @ ''10'' @ b)))
   \<and> (\<not> (videoCodec ci = Some ''h264'' \<and> \<not> (\<exists>a b. pixFmt ci = Some (a @ ''10'' @ b)))
        \<longrightarrow> option_value ''-c:v'' (hlsArgs outputDir basePath ci) = Some ''libx264''
          \<and> option_value ''-preset'' (hlsArgs outputDir basePath ci) = Some ''ultrafast'')"
  by (cases "pixFmt ci") (auto simp: hlsArgs_def includes_str_iff)

theorem video_job_reencodes_10bit_h264:
  "\<not> (videoCodec \<lparr>videoCodec = Some ''h264'', pixFmt = Some ''yuv420p10le'', subtitles = [],
                  audioStreams = [], duration = 25\<rparr> = Some ''h264''
       \<and> \<not> (\<exists>a b. pixFmt \<lparr>videoCodec = Some ''h264'', pixFmt = Some ''yuv420p10le'',
                    subtitles = [], audioStreams = [], duration = 25\<rparr> = Some (a @ ''10'' @ b)))
   \<and> option_value ''-c:v'' (hlsArgs ''/addon/hls/abc/0'' []
        \<lparr>videoCodec = Some ''h264'', pixFmt = Some ''yuv420p10le'', subtitles = [],
         audioStreams = [], duration = 25\<rparr>) = Some ''libx264''
   \<and> option_value ''-preset'' (hlsArgs ''/addon/hls/abc/0'' []
        \<lparr>videoCodec = Some ''h264'', pixFmt = Some ''yuv420p10le'', subtitles = [],
         audioStreams = [], duration = 25\<rparr>) = Some ''ultrafast''"
proof -
  have "includes_str ''yuv420p10le'' ''10''"
    by (simp add: startsWith_def)
  then have "\<exists>a b. ''yuv420p10le'' = a @ ''10'' @ b"
    by (simp only: includes_str_iff)
  then show ?thesis
    using video_job_copy_iff_h264_not_10bit [of "''/addon/hls/abc/0''" "[]"
        "\<lparr>videoCodec = Some ''h264'', pixFmt = Some ''yuv420p10le'', subtitles = [],
          audioStreams = [], duration = 25\<rparr>"]
    by simp
qed

section \<open>Range streaming\<close>

lemma parse_bytes_0_99: "parse_single_range ''bytes=0-99'' = Some (0, 99)"
  by (simp add: parse_single_range_def parse_nat_def startsWith_def is_digit_def digit_value_def
      digits_value_def)

lemma parse_bytes_500_100: "parse_single_range ''bytes=500-100'' = Some (500, 100)"
  by (simp add: parse_single_range_def parse_nat_def startsWith_def is_digit_def digit_value_def
      digits_value_def)

lemma parse_bytes_1000_1500: "parse_single_range ''bytes=1000-1500'' = Some (1000, 1500)"
  by (simp add: parse_single_range_def parse_nat_def startsWith_def is_digit_def digit_value_def
      digits_value_def)

lemma parse_first_hundred: "parse_single_range ''first hundred'' = None"
  by (simp add: parse_single_range_def startsWith_def)


text \<open>
  Claim C6. A stream-mode GET request whose \<open>Range\<close> header the range parser turns
  into the span from \<open>start\<close> to \<open>end\<close> is answered, without waiting, with
  status 206, \<open>Content-Range: bytes start-end/L\<close> and
  \<open>Content-Length: end - start + 1\<close>, \<open>L\<close> being the file's length, and the
  body streams exactly that span of the file.
\<close>

theorem stream_range_partial_content:
  assumes "req_method req = ''GET''"
    and "safeParse env = Inr params"
    and "getFile env params = Inr file"
    and "delivery params \<noteq> ''hls''"
    and "parseRangeHeader env (req_range req) (file_length file) = Some (start, end)"
  shows "\<exists>r. play fuel env req s = Some (0, s, Inr r)
           \<and> resp_status r = 206
           \<and> header r ''Content-Range''
               = Some (''bytes '' @ toString_int start @ ''-'' @ toString_int end @ ''/''
                        @ toString_int (file_length file))
           \<and> header r ''Content-Length'' = Some (toString_int (end - start + 1))
           \<and> resp_body r = FileStream start end"
  using assms by (simp add: play_def play_stream_def header_def Let_def)

theorem stream_range_0_99_of_1000:
  "\<exists>r. play 0 (example_env ''stream'' (Inl (ProbeFailure [])) (\<lambda>k s. s))
          \<lparr>req_method = ''GET'', req_range = Some ''bytes=0-99''\<rparr> Map.empty
          = Some (0, Map.empty, Inr r)
       \<and> resp_status r = 206
       \<and> header r ''Content-Range'' = Some ''bytes 0-99/1000''
       \<and> header r ''Content-Length'' = Some ''100''
       \<and> resp_body r = FileStream 0 99"
  using stream_range_partial_content
    [where req = "\<lparr>req_method = ''GET'', req_range = Some ''bytes=0-99''\<rparr>"
      and env = "example_env ''stream'' (Inl (ProbeFailure [])) (\<lambda>k s. s)"
      and params = "example_params ''stream''" and ?file = example_file
      and start = 0 and ?end = 99 and fuel = 0 and s = Map.empty]
  by (simp add: example_env_def example_params_def example_file_def toString_int_def toString.simps
      digit_char_def parseRangeHeader_spec_def parse_bytes_0_99)

lemma play_stream_rejects:
  assumes "req_method req = ''GET''"
    and "safeParse env = Inr params"
    and "getFile env params = Inr file"
    and "delivery params \<noteq> ''hls''"
    and "parseRangeHeader env (req_range req) (file_length file) = None"
  shows "play fuel env req s
           = Some (0, s, Inr \<lparr>resp_status = 416,
                               resp_headers = [(''Content-Range'',
                                                ''bytes */'' @ toString_int (file_length file))],
                               resp_body = NoBody\<rparr>)"
  using assms by (simp add: play_def play_stream_def Let_def)

text \<open>
  Claim C7. With the range parser of the specification, a stream-mode GET request whose
  \<open>Range\<close> header is missing, or is not of the form the parser reads, or asks for
  \<open>start > end\<close> or \<open>start \<ge> L\<close>, is answered with status 416, no body, and
  \<open>Content-Range: bytes */L\<close>, \<open>L\<close> being the file's length.
\<close>

theorem stream_range_not_satisfiable:
  assumes "req_method req = ''GET''"
    and "safeParse env = Inr params"
    and "getFile env params = Inr file"
    and "delivery params \<noteq> ''hls''"
    and "parseRangeHeader env = parseRangeHeader_spec"
    and "req_range req = None
         \<or> (\<exists>v. req_range req = Some v
                \<and> (parse_single_range v = None
                   \<or> (\<exists>start end. parse_single_range v = Some (start, end)
                          \<and> (start > end \<or> start \<ge> file_length file))))"
  shows "\<exists>r. play fuel env req s = Some (0, s, Inr r)
           \<and> resp_status r = 416
           \<and> resp_body r = NoBody
           \<and> header r ''Content-Range'' = Some (''bytes */'' @ toString_int (file_length file))"
proof -
  have "parseRangeHeader_spec (req_range req) (file_length file) = None"
    using assms(6) by (auto simp: parseRangeHeader_spec_def)
  then have "parseRangeHeader env (req_range req) (file_length file) = None"
    using assms(5) by simp
  then have "play fuel env req s
           = Some (0, s, Inr \<lparr>resp_status = 416,
                               resp_headers = [(''Content-Range'',
                                                ''bytes */'' @ toString_int (file_length file))],
                               resp_body = NoBody\<rparr>)"
    by (rule play_stream_rejects [OF assms(1-4)])
  then show ?thesis by (simp add: header_def)
qed

theorem stream_bad_ranges_of_1000:
  "(\<exists>r. play 0 (example_env ''stream'' (Inl (ProbeFailure [])) (\<lambda>k s. s))
          \<lparr>req_method = ''GET'', req_range = None\<rparr> Map.empty
          = Some (0, Map.empty, Inr r)
       \<and> resp_status r = 416 \<and> resp_body r = NoBody
       \<and> header r ''Content-Range'' = Some ''bytes */1000'')
   \<and> (\<exists>r. play 0 (example_env ''stream'' (Inl (ProbeFailure [])) (\<lambda>k s. s))
          \<lparr>req_method = ''GET'', req_range = Some ''first hundred''\<rparr> Map.empty
          = Some (0, Map.empty, Inr r)
       \<and> resp_status r = 416 \<and> resp_body r = NoBody
       \<and> header r ''Content-Range'' = Some ''bytes */1000'')
   \<and> (\<exists>r. play 0 (example_env ''stream'' (Inl (ProbeFailure [])) (\<lambda>k s. s))
          \<lparr>req_method = ''GET'', req_range = Some ''bytes=500-100''\<rparr> Map.empty
          = Some (0, Map.empty, Inr r)
       \<and> resp_status r = 416 \<and> resp_body r = NoBody
       \<and> header r ''Content-Range'' = Some ''bytes */1000'')
   \<and> (\<exists>r. play 0 (example_env ''stream'' (Inl (ProbeFailure [])) (\<lambda>k s. s))
          \<lparr>req_method = ''GET'', req_range = Some ''bytes=1000-1500''\<rparr> Map.empty
          = Some (0, Map.empty, Inr r)
       \<and> resp_status r = 416 \<and> resp_body r = NoBody
       \<and> header r ''Content-Range'' = Some ''bytes */1000'')"
proof -
  let ?env = "example_env ''stream'' (Inl (ProbeFailure [])) (\<lambda>k s. s)"
  have pre: "safeParse ?env = Inr (example_params ''stream'')"
    "getFile ?env (example_params ''stream'') = Inr example_file"
    "delivery (example_params ''stream'') \<noteq> ''hls''"
    "parseRangeHeader ?env = parseRangeHeader_spec"
    by (simp_all add: example_env_def example_params_def)
  have len: "file_length example_file = 1000" "toString_int 1000 = ''1000''"
    by (simp_all add: example_file_def toString_int_def toString.simps digit_char_def)
  note t = stream_range_not_satisfiable [where env = ?env and params = "example_params ''stream''"
      and ?file = example_file and fuel = 0 and s = Map.empty, OF _ pre]
  have a: "req_method \<lparr>req_method = ''GET'', req_range = None\<rparr> = ''GET''"
    "req_method \<lparr>req_method = ''GET'', req_range = Some ''first hundred''\<rparr> = ''GET''"
    "req_method \<lparr>req_method = ''GET'', req_range = Some ''bytes=500-100''\<rparr> = ''GET''"
    "req_method \<lparr>req_method = ''GET'', req_range = Some ''bytes=1000-1500''\<rparr> = ''GET''"
    by simp_all
  show ?thesis
  proof (intro conjI)
    show "\<exists>r. play 0 ?env \<lparr>req_method = ''GET'', req_range = None\<rparr> Map.empty
          = Some (0, Map.empty, Inr r)
       \<and> resp_status r = 416 \<and> resp_body r = NoBody
       \<and> header r ''Content-Range'' = Some ''bytes */1000''"
      using t [OF a(1)] by (simp add: len)
    show "\<exists>r. play 0 ?env \<lparr>req_method = ''GET'', req_range = Some ''first hundred''\<rparr> Map.empty
          = Some (0, Map.empty, Inr r)
       \<and> resp_status r = 416 \<and> resp_body r = NoBody
       \<and> header r ''Content-Range'' = Some ''bytes */1000''"
      using t [OF a(2)] by (simp add: len parse_first_hundred)
    show "\<exists>r. play 0 ?env \<lparr>req_method = ''GET'', req_range = Some ''bytes=500-100''\<rparr> Map.empty
          = Some (0, Map.empty, Inr r)
       \<and> resp_status r = 416 \<and> resp_body r = NoBody
       \<and> header r ''Content-Range'' = Some ''bytes */1000''"
      using t [OF a(3)] by (simp add: len parse_bytes_500_100)
    show "\<exists>r. play 0 ?env \<lparr>req_method = ''GET'', req_range = Some ''bytes=1000-1500''\<rparr> Map.empty
          = Some (0, Map.empty, Inr r)
       \<and> resp_status r = 416 \<and> resp_body r = NoBody
       \<and> header r ''Content-Range'' = Some ''bytes */1000''"
      using t [OF a(4)] by (simp add: len parse_bytes_1000_1500)
  qed
qed

end
